theory Spec2Isabelle
  imports Complex_Main "HOL-Library.Log_Nat" "HOL-Library.Sublist"
begin

section \<open>The ring log buffer (class CircularBuffer of hooks.ts)\<close>

text \<open>
  A JavaScript array is a store from indices to elements in which an index never written
  is a hole and reads as \<^verbatim>\<open>undefined\<close>; a write past the end extends it. The field
  \<open>buffer\<close> is therefore a partial map. The index \<^verbatim>\<open>head\<close> is a JavaScript number:
  \<^verbatim>\<open>(head + 1) % capacity\<close> is \<^verbatim>\<open>NaN\<close> when the capacity is 0, and stays
  \<^verbatim>\<open>NaN\<close> afterwards; \<open>None\<close> stands for \<^verbatim>\<open>NaN\<close>. A write to
  \<^verbatim>\<open>buffer[NaN]\<close> sets the property named "NaN" of the array object, which is no element
  of it; the field \<open>nan_slot\<close> holds that property. The constructor accepts exactly the
  lengths that are natural numbers below \<open>2^32\<close> (it raises RangeError on anything else),
  so the capacity is a \<open>nat\<close>. The element type of the program is \<^verbatim>\<open>string\<close>, so a stored
  element is never \<^verbatim>\<open>undefined\<close>.
\<close>

record 'a CircularBuffer =
  buffer :: "nat \<rightharpoonup> 'a"
  nan_slot :: "'a option"
  head :: "nat option"
  sizeCB :: nat
  capacity :: nat

definition newCircularBuffer :: "nat \<Rightarrow> 'a CircularBuffer" where
  "newCircularBuffer cap =
     \<lparr>buffer = Map.empty, nan_slot = None, head = Some 0, sizeCB = 0, capacity = cap\<rparr>"

text \<open>\<^verbatim>\<open>a % b\<close> on an index that may be \<^verbatim>\<open>NaN\<close>, for a natural number \<open>b\<close>.\<close>

definition js_mod :: "nat option \<Rightarrow> nat \<Rightarrow> nat option" where
  "js_mod a b = (case a of None \<Rightarrow> None | Some x \<Rightarrow> if b = 0 then None else Some (x mod b))"

definition js_plus :: "nat option \<Rightarrow> nat \<Rightarrow> nat option" where
  "js_plus a i = (case a of None \<Rightarrow> None | Some x \<Rightarrow> Some (x + i))"

text \<open>\<^verbatim>\<open>this.buffer[idx]\<close>: an element, the property "NaN", or \<^verbatim>\<open>undefined\<close>.\<close>

definition slot :: "'a CircularBuffer \<Rightarrow> nat option \<Rightarrow> 'a option" where
  "slot b idx = (case idx of None \<Rightarrow> nan_slot b | Some i \<Rightarrow> buffer b i)"

definition push :: "'a \<Rightarrow> 'a CircularBuffer \<Rightarrow> 'a CircularBuffer" where
  "push item b =
     (let b1 = (case head b of
                  None \<Rightarrow> b\<lparr>nan_slot := Some item\<rparr>
                | Some h \<Rightarrow> b\<lparr>buffer := (buffer b)(h \<mapsto> item)\<rparr>);
          b2 = b1\<lparr>head := js_mod (js_plus (head b1) 1) (capacity b1)\<rparr>
      in b2\<lparr>sizeCB := min (sizeCB b2 + 1) (capacity b2)\<rparr>)"

definition getAll :: "'a CircularBuffer \<Rightarrow> 'a list" where
  "getAll b =
     (let start = (if sizeCB b = capacity b then head b else Some 0);
          count = sizeCB b
      in List.map_filter (\<lambda>i. slot b (js_mod (js_plus start i) (capacity b))) [0..<count])"

text \<open>
  \<^verbatim>\<open>Array.prototype.slice(start)\<close> with one integer argument: a negative start counts
  from the end, and both are clamped to the array.
\<close>

definition slice_from :: "'a list \<Rightarrow> int \<Rightarrow> 'a list" where
  "slice_from xs start =
     (let len = int (length xs);
          k = (if start < 0 then max (len + start) 0 else min start len)
      in drop (nat k) xs)"

text \<open>\<^verbatim>\<open>getRecent(n)\<close> is \<^verbatim>\<open>getAll().slice(-n)\<close>; \<^verbatim>\<open>-0\<close> is the index 0.\<close>

definition getRecent :: "int \<Rightarrow> 'a CircularBuffer \<Rightarrow> 'a list" where
  "getRecent n b = slice_from (getAll b) (- n)"

definition clear :: "'a CircularBuffer \<Rightarrow> 'a CircularBuffer" where
  "clear b = b\<lparr>buffer := Map.empty, nan_slot := None, head := Some 0, sizeCB := 0\<rparr>"

text \<open>The buffer after a sequence of pushes, oldest first.\<close>

definition push_all :: "'a list \<Rightarrow> 'a CircularBuffer \<Rightarrow> 'a CircularBuffer" where
  "push_all xs b = foldl (\<lambda>acc x. push x acc) b xs"

text \<open>
  The invariant of a buffer of positive capacity: \<^verbatim>\<open>head\<close> is a valid index, it equals the
  size until the buffer is full, and the first \<open>sizeCB\<close> cells are written.
\<close>

definition wf :: "'a CircularBuffer \<Rightarrow> bool" where
  "wf b \<longleftrightarrow> 0 < capacity b \<and> sizeCB b \<le> capacity b \<and>
     (\<exists>h. head b = Some h \<and> h < capacity b \<and> (sizeCB b < capacity b \<longrightarrow> h = sizeCB b)) \<and>
     (\<forall>i < sizeCB b. buffer b i \<noteq> None)"

definition start_of :: "'a CircularBuffer \<Rightarrow> nat" where
  "start_of b = (if sizeCB b = capacity b then the (head b) else 0)"

section \<open>Strings\<close>

text \<open>
  A line is a JavaScript string, a sequence of UTF-16 code units. The model has the code
  units below 256 (Latin-1), one \<^typ>\<open>char\<close> each. On these, \<^verbatim>\<open>toLowerCase\<close> maps each
  unit on its own: A-Z and the accented capitals U+00C0..U+00DE (U+00D7, the
  multiplication sign, apart) move up by 32, everything else stays.
\<close>

definition toLowerChar :: "char \<Rightarrow> char" where
  "toLowerChar c =
     (let n = (of_char c :: nat)
      in if (65 \<le> n \<and> n \<le> 90) \<or> (192 \<le> n \<and> n \<le> 222 \<and> n \<noteq> 215)
         then char_of (n + 32) else c)"

definition toLowerCase :: "string \<Rightarrow> string" where
  "toLowerCase s = map toLowerChar s"

text \<open>\<^verbatim>\<open>s.indexOf(kw)\<close>: the first position at which \<open>kw\<close> occurs in \<open>s\<close>, or -1.\<close>

fun indexOfFrom :: "string \<Rightarrow> string \<Rightarrow> nat \<Rightarrow> int" where
  "indexOfFrom [] kw i = (if kw = [] then int i else - 1)"
| "indexOfFrom (c # cs) kw i =
     (if prefix kw (c # cs) then int i else indexOfFrom cs kw (Suc i))"

definition indexOf :: "string \<Rightarrow> string \<Rightarrow> int" where
  "indexOf s kw = indexOfFrom s kw 0"

section \<open>Regular expressions of UPTIME\_PATTERNS\<close>

text \<open>
  The three patterns use literals, character classes, sequence, alternation, the greedy
  quantifiers \<^verbatim>\<open>*\<close>, \<^verbatim>\<open>+\<close>, \<^verbatim>\<open>?\<close>, non-capturing groups and one capturing group.
  \<open>rmatch r s\<close> lists the rests of \<open>s\<close> left by the ways \<open>r\<close> can match a prefix of
  \<open>s\<close>, in the order a backtracking matcher tries them: the left alternative before
  the right one, one more iteration before stopping. An iteration of \<^verbatim>\<open>*\<close> that consumes
  nothing is not repeated, as in ECMAScript.
\<close>

datatype regex =
    Eps
  | Lit char
  | Cls "char \<Rightarrow> bool"
  | Seq regex regex
  | Alt regex regex
  | Star regex

text \<open>
  Under the flag \<^verbatim>\<open>i\<close> (without \<^verbatim>\<open>u\<close>) two code units match when their canonical
  forms are equal: the upper-case form, except that a unit of 128 or more whose upper-case
  form is ASCII stays as it is. All literals of the patterns are ASCII letters, colons
  and points, so only the canonical form of an ASCII unit matters; other units are left
  alone here, which never makes them equal to an ASCII one.
\<close>

definition canonicalize :: "char \<Rightarrow> char" where
  "canonicalize c =
     (let n = (of_char c :: nat) in if 97 \<le> n \<and> n \<le> 122 then char_of (n - 32) else c)"

function rmatch :: "regex \<Rightarrow> string \<Rightarrow> string list" where
  "rmatch Eps s = [s]"
| "rmatch (Lit c) s =
     (case s of [] \<Rightarrow> [] | x # xs \<Rightarrow> if canonicalize x = canonicalize c then [xs] else [])"
| "rmatch (Cls P) s = (case s of [] \<Rightarrow> [] | x # xs \<Rightarrow> if P x then [xs] else [])"
| "rmatch (Seq r1 r2) s = concat (map (\<lambda>s1. rmatch r2 s1) (rmatch r1 s))"
| "rmatch (Alt r1 r2) s = rmatch r1 s @ rmatch r2 s"
| "rmatch (Star r) s =
     concat (map (\<lambda>s1. if length s1 < length s then rmatch (Star r) s1 else [])
                 (rmatch r s)) @ [s]"
  by pat_completeness auto
termination
  by (relation "measures [\<lambda>(r, s). size r, \<lambda>(r, s). length s]") auto

definition Plus :: "regex \<Rightarrow> regex" where
  "Plus r = Seq r (Star r)"

definition Opt :: "regex \<Rightarrow> regex" where
  "Opt r = Alt r Eps"

fun Word :: "string \<Rightarrow> regex" where
  "Word [] = Eps"
| "Word (c # cs) = Seq (Lit c) (Word cs)"

text \<open>
  \<^verbatim>\<open>\s\<close> is the white space and the line terminators of ECMAScript; below 256 these are
  tab, line feed, vertical tab, form feed, carriage return, space and no-break space.
  \<^verbatim>\<open>\d\<close> is 0-9.
\<close>

definition is_space :: "char \<Rightarrow> bool" where
  "is_space c = ((of_char c :: nat) \<in> {9, 10, 11, 12, 13, 32, 160})"

definition is_digit :: "char \<Rightarrow> bool" where
  "is_digit c = (48 \<le> (of_char c :: nat) \<and> (of_char c :: nat) \<le> 57)"

text \<open>
  Each pattern is a sequence of three parts with its one capturing group in the middle:
  what comes before the group, the group, what comes after it.
\<close>

record pattern =
  before_group :: regex
  group1 :: regex
  after_group :: regex

text \<open>
  All ways the pattern matches at the start of \<open>s\<close>, in backtracking order, each with the
  text captured by group 1.
\<close>

definition pattern_matches :: "pattern \<Rightarrow> string \<Rightarrow> string list" where
  "pattern_matches p s =
     concat (map (\<lambda>s1.
       concat (map (\<lambda>s2.
         map (\<lambda>s3. take (length s1 - length s2) s1) (rmatch (after_group p) s2))
         (rmatch (group1 p) s1)))
       (rmatch (before_group p) s))"

text \<open>
  \<^verbatim>\<open>line.match(pattern)\<close> for a pattern without the flag \<^verbatim>\<open>g\<close>: the first match at the
  leftmost position that has one; the result is \<^verbatim>\<open>match[1]\<close>, or \<open>None\<close> for \<^verbatim>\<open>null\<close>.
\<close>

fun match_group1 :: "pattern \<Rightarrow> string \<Rightarrow> string option" where
  "match_group1 p [] = (case pattern_matches p [] of [] \<Rightarrow> None | g # _ \<Rightarrow> Some g)"
| "match_group1 p (c # cs) =
     (case pattern_matches p (c # cs) of [] \<Rightarrow> match_group1 p cs | g # _ \<Rightarrow> Some g)"

text \<open>The tail shared by the three patterns:
  \<^verbatim>\<open>[:\s]+(\d+(?:\.\d+)?)\s*(?:seconds?|s)\<close>.\<close>

definition uptime_pattern :: "regex \<Rightarrow> pattern" where
  "uptime_pattern keyword =
     \<lparr>before_group = Seq keyword (Plus (Cls (\<lambda>c. c = CHR '':'' \<or> is_space c))),
      group1 = Seq (Plus (Cls is_digit)) (Opt (Seq (Lit CHR ''.'') (Plus (Cls is_digit)))),
      after_group = Seq (Star (Cls is_space))
                        (Alt (Seq (Word ''second'') (Opt (Lit CHR ''s''))) (Lit CHR ''s''))\<rparr>"

definition UPTIME_PATTERNS :: "pattern list" where
  "UPTIME_PATTERNS =
     [uptime_pattern (Word ''uptime''),
      uptime_pattern (Seq (Word ''running'') (Seq (Plus (Cls is_space)) (Word ''for''))),
      uptime_pattern (Word ''alive'')]"

text \<open>
  \<^verbatim>\<open>parseFloat\<close> on what group 1 captures: decimal digits, then possibly a point and
  more digits. JavaScript returns the double nearest to that decimal; the model keeps the
  decimal itself, a rational number. Signs, exponents and the other inputs of
  \<^verbatim>\<open>parseFloat\<close> cannot be captured and are not modelled.
\<close>

definition digits_value :: "string \<Rightarrow> nat" where
  "digits_value ds = foldl (\<lambda>acc c. 10 * acc + (of_char c - 48)) 0 ds"

definition parseFloat :: "string \<Rightarrow> rat" where
  "parseFloat s =
     (let ip = takeWhile is_digit s;
          rest = dropWhile is_digit s;
          fp = (case rest of [] \<Rightarrow> [] | c # ds \<Rightarrow> if c = CHR ''.'' then takeWhile is_digit ds else [])
      in of_nat (digits_value ip) + of_nat (digits_value fp) / 10 ^ length fp)"

section \<open>Uptime extraction (extractUptimeFromLogs)\<close>

text \<open>The inner loop: the patterns in order, the first that matches decides.\<close>

fun scan_patterns :: "pattern list \<Rightarrow> string \<Rightarrow> rat option" where
  "scan_patterns [] line = None"
| "scan_patterns (p # ps) line =
     (case match_group1 p line of
        Some g \<Rightarrow> Some (parseFloat g)
      | None \<Rightarrow> scan_patterns ps line)"

text \<open>The outer loop runs from the last index down; its argument here is the lines
  newest first.\<close>

fun scan_lines :: "string list \<Rightarrow> rat" where
  "scan_lines [] = 0"
| "scan_lines (l # ls) =
     (case scan_patterns UPTIME_PATTERNS l of Some v \<Rightarrow> v | None \<Rightarrow> scan_lines ls)"

definition extractUptimeFromLogs :: "string CircularBuffer \<Rightarrow> rat" where
  "extractUptimeFromLogs logs = scan_lines (rev (getRecent 50 logs))"

section \<open>JavaScript numbers\<close>

text \<open>
  A JavaScript number is an IEEE-754 binary64 value: a finite double, one of the two
  infinities, or \<^verbatim>\<open>NaN\<close>. A finite double is represented by the rational it denotes,
  so the two zeros are one value (no operation below gives them different numeric
  results).
\<close>

datatype jsnum = Fin rat | PInf | NInf | NaN

text \<open>
  For \<open>x\<close> other than 0, \<open>binade x\<close> is the exponent \<open>e\<close> with \<open>2^e \<le> \<bar>x\<bar> < 2^(e+1)\<close>. The
  doubles around \<open>x\<close> are the multiples of \<open>quantum x\<close>: 52 fraction bits below the exponent,
  which is not less than \<open>-1022\<close> (below it the doubles are subnormal, all multiples of
  \<open>2^(-1074)\<close>). \<open>round_double\<close> is the rounding every arithmetic operation ends with: to
  the nearest double, a tie to the one whose last bit is even, and to an infinity when the
  rounded value has left the exponent range. \<open>is_double x\<close> says that \<open>x\<close> is the value of
  a finite double.
\<close>

definition binade :: "rat \<Rightarrow> int" where
  "binade x =
     (let a = \<bar>fst (quotient_of x)\<bar>; b = snd (quotient_of x);
          e0 = bitlen a - bitlen b
      in if 2 powi e0 \<le> \<bar>x\<bar> then e0 else e0 - 1)"

definition round_half_even :: "rat \<Rightarrow> int" where
  "round_half_even x =
     (let f = \<lfloor>x\<rfloor>; d = x - of_int f
      in if d < 1 / 2 then f else if 1 / 2 < d then f + 1 else if even f then f else f + 1)"

definition quantum :: "rat \<Rightarrow> rat" where
  "quantum x = 2 powi (max (binade x) (- 1022) - 52)"

definition round_to_quantum :: "rat \<Rightarrow> rat" where
  "round_to_quantum x = of_int (round_half_even (x / quantum x)) * quantum x"

definition round_double :: "rat \<Rightarrow> jsnum" where
  "round_double x =
     (let y = round_to_quantum x
      in if 1024 \<le> binade y then (if 0 < y then PInf else NInf) else Fin y)"


text \<open>
  The operators \<^verbatim>\<open>*\<close>, \<^verbatim>\<open>+\<close> and \<^verbatim>\<open><=\<close>, and \<^verbatim>\<open>Math.min\<close> and \<^verbatim>\<open>Math.floor\<close>.
  \<open>Math_pow2 n\<close> is \<^verbatim>\<open>Math.pow(2, n)\<close> for an integer \<open>n\<close> that is not negative: the
  power itself up to \<open>2^1023\<close>, the largest power of two among the doubles, and
  \<^verbatim>\<open>Infinity\<close> from 1024 on.
\<close>

fun js_mul :: "jsnum \<Rightarrow> jsnum \<Rightarrow> jsnum" where
  "js_mul NaN b = NaN"
| "js_mul a NaN = NaN"
| "js_mul (Fin x) (Fin y) = round_double (x * y)"
| "js_mul (Fin x) PInf = (if x = 0 then NaN else if 0 < x then PInf else NInf)"
| "js_mul (Fin x) NInf = (if x = 0 then NaN else if 0 < x then NInf else PInf)"
| "js_mul PInf (Fin y) = (if y = 0 then NaN else if 0 < y then PInf else NInf)"
| "js_mul NInf (Fin y) = (if y = 0 then NaN else if 0 < y then NInf else PInf)"
| "js_mul PInf PInf = PInf"
| "js_mul PInf NInf = NInf"
| "js_mul NInf PInf = NInf"
| "js_mul NInf NInf = PInf"

fun js_add :: "jsnum \<Rightarrow> jsnum \<Rightarrow> jsnum" where
  "js_add NaN b = NaN"
| "js_add a NaN = NaN"
| "js_add (Fin x) (Fin y) = round_double (x + y)"
| "js_add (Fin x) PInf = PInf"
| "js_add (Fin x) NInf = NInf"
| "js_add PInf (Fin y) = PInf"
| "js_add NInf (Fin y) = NInf"
| "js_add PInf PInf = PInf"
| "js_add PInf NInf = NaN"
| "js_add NInf PInf = NaN"
| "js_add NInf NInf = NInf"


fun Math_min :: "jsnum \<Rightarrow> jsnum \<Rightarrow> jsnum" where
  "Math_min NaN b = NaN"
| "Math_min a NaN = NaN"
| "Math_min NInf b = NInf"
| "Math_min a NInf = NInf"
| "Math_min PInf b = b"
| "Math_min a PInf = a"
| "Math_min (Fin x) (Fin y) = Fin (min x y)"

fun Math_floor :: "jsnum \<Rightarrow> jsnum" where
  "Math_floor (Fin x) = Fin (of_int \<lfloor>x\<rfloor>)"
| "Math_floor a = a"

definition Math_pow2 :: "nat \<Rightarrow> jsnum" where
  "Math_pow2 n = (if n \<le> 1023 then Fin (2 ^ n) else PInf)"

section \<open>Configuration, state and effects\<close>

text \<open>
  The entries of \<^verbatim>\<open>CONFIG\<close> that the modelled code reads. \<^verbatim>\<open>parseInt\<close> gives an integer
  (possibly negative) or \<^verbatim>\<open>NaN\<close>; a configuration with a \<^verbatim>\<open>NaN\<close> entry is outside the
  model. \<^verbatim>\<open>MAX_LOG_LINES\<close> is the capacity handed to the buffer's constructor.
\<close>

record Config =
  BINARY_PATH :: string
  STARTUP_GRACE_PERIOD :: int
  MAX_RESTART_ATTEMPTS :: int
  RESTART_DELAY :: int
  AUTO_KEY_INJECTION :: bool
  MAX_LOG_LINES :: nat
  SHUTDOWN_TIMEOUT :: int
  HEALTH_CACHE_TTL :: int

text \<open>
  A child process object: \<open>cid\<close> tells the objects apart, \<open>pid\<close> is \<^verbatim>\<open>undefined\<close>
  (\<open>None\<close>) when the operating system gave no process.
\<close>

record ChildProcess =
  cid :: nat
  pid :: "nat option"

record HealthMetrics =
  uptime :: rat
  isRunning :: bool
  hasErrors :: bool
  uptimeIncreasing :: bool

record PerformanceMetrics =
  lastHealthCheckDuration :: rat
  avgHealthCheckDuration :: rat
  totalHealthChecks :: nat
  lastRestartTime :: int
  memoryUsage :: nat
  logProcessingTime :: rat

record HealthCacheEntry =
  metrics :: HealthMetrics
  timestamp :: int

text \<open>The field \<^verbatim>\<open>metrics\<close> of \<^verbatim>\<open>ProcessState\<close> is \<open>perfMetrics\<close> here, the name
  \<open>metrics\<close> being the cache entry's.\<close>

record ProcessState =
  process :: "ChildProcess option"
  startTime :: int
  lastUptime :: rat
  isHealthy :: bool
  restartCount :: nat
  logs :: "string CircularBuffer"
  perfMetrics :: PerformanceMetrics
  healthCache :: "HealthCacheEntry option"

definition zeroMetrics :: PerformanceMetrics where
  "zeroMetrics =
     \<lparr>lastHealthCheckDuration = 0, avgHealthCheckDuration = 0, totalHealthChecks = 0,
      lastRestartTime = 0, memoryUsage = 0, logProcessingTime = 0\<rparr>"

definition processState :: "Config \<Rightarrow> ProcessState" where
  "processState cfg =
     \<lparr>process = None, startTime = 0, lastUptime = 0, isHealthy = False, restartCount = 0,
      logs = newCircularBuffer (MAX_LOG_LINES cfg), perfMetrics = zeroMetrics,
      healthCache = None\<rparr>"

text \<open>
  What the code does to the outside world, in the order it does it: liveness probes,
  reads of the log window, signals, log messages (level and fixed text), sleeps, file
  removal, process creation and timers.
\<close>

datatype signal = SIGTERM | SIGKILL

datatype level = LogDebug | LogInfo | LogWarn | LogError

datatype effect =
    Probe nat
  | ScanLogs
  | Kill nat signal
  | Log level string
  | Sleep int
  | Unlink string
  | SpawnKey
  | SpawnBinary nat string
  | SetTimeout jsnum

datatype error = InvalidSecretError | BinaryStartError

text \<open>The truth value of \<^verbatim>\<open>process.pid\<close>: \<^verbatim>\<open>undefined\<close> and 0 are false.\<close>

definition truthy_pid :: "nat option \<Rightarrow> bool" where
  "truthy_pid p = (case p of None \<Rightarrow> False | Some n \<Rightarrow> n \<noteq> 0)"

section \<open>Restart policy (calculateBackoff)\<close>

text \<open>
  The first argument is the value \<^verbatim>\<open>Math.random()\<close> returns, a double in \<open>[0, 1)\<close>.
  The literal \<^verbatim>\<open>0.3\<close> is the double nearest to \<open>3/10\<close>, and
  \<^verbatim>\<open>Math.random() * 0.3 * delay\<close> multiplies from the left, rounding after each
  product. The attempt index is a natural number, as at the call site
  (\<^verbatim>\<open>restartCount - 1\<close> after the increment). \<open>backoffDelay\<close> is the constant
  \<^verbatim>\<open>delay\<close> of the function body.
\<close>

definition backoffDelay :: "nat \<Rightarrow> jsnum \<Rightarrow> jsnum \<Rightarrow> jsnum" where
  "backoffDelay attempt baseDelay maxDelay =
     Math_min (js_mul baseDelay (Math_pow2 attempt)) maxDelay"

definition calculateBackoff :: "jsnum \<Rightarrow> nat \<Rightarrow> jsnum \<Rightarrow> jsnum \<Rightarrow> jsnum" where
  "calculateBackoff random attempt baseDelay maxDelay =
     (let delay = backoffDelay attempt baseDelay maxDelay;
          jitter = js_mul (js_mul random (round_double (3 / 10))) delay
      in Math_floor (js_add delay jitter))"

section \<open>Log monitoring (monitorProcessLogs)\<close>

text \<open>The two \<^verbatim>\<open>line\<close> handlers, each returning the new state and its effects. The
  second argument of the \<^verbatim>\<open>stdout\<close> handler is the measured processing time.\<close>

definition stdout_line :: "string \<Rightarrow> rat \<Rightarrow> ProcessState \<Rightarrow> ProcessState \<times> effect list" where
  "stdout_line line elapsed st =
     (st\<lparr>logs := push line (logs st),
         perfMetrics := (perfMetrics st)\<lparr>logProcessingTime := elapsed\<rparr>\<rparr>,
      [Log LogDebug ''[BINARY STDOUT]''])"

definition invalid_secret :: "string \<Rightarrow> bool" where
  "invalid_secret line =
     (let lowerLine = toLowerCase line
      in indexOf lowerLine ''invalid'' \<noteq> - 1 \<and> indexOf lowerLine ''secret'' \<noteq> - 1)"

definition stderr_line :: "ChildProcess \<Rightarrow> string \<Rightarrow> ProcessState \<Rightarrow> ProcessState \<times> effect list" where
  "stderr_line childProcess line st =
     (st\<lparr>logs := push (''ERROR: '' @ line) (logs st)\<rparr>,
      Log LogWarn ''[BINARY STDERR]'' #
      (if invalid_secret line
       then [Log LogError ''Invalid secret detected in binary output'',
             Kill (cid childProcess) SIGTERM]
       else []))"

section \<open>Health evaluation (checkBinaryHealth, health)\<close>

text \<open>
  What one evaluation reads from outside: the clock at the cache test, the answer of
  \<^verbatim>\<open>process.kill(pid, 0)\<close> (\<^verbatim>\<open>isProcessRunning\<close>), the clock at the grace test and at
  the cache update, the measured duration and the heap size.
\<close>

record HealthEnv =
  now_check :: int
  alive :: "nat \<Rightarrow> bool"
  now_grace :: int
  now_store :: int
  duration :: rat
  heapUsed :: nat

definition ERROR_KEYWORDS :: "string list" where
  "ERROR_KEYWORDS = [''error'', ''exception'', ''failed'', ''critical'', ''fatal'']"

definition has_error_keyword :: "string \<Rightarrow> bool" where
  "has_error_keyword logLine =
     (let lowerLog = toLowerCase logLine
      in list_ex (\<lambda>keyword. indexOf lowerLog keyword \<noteq> - 1) ERROR_KEYWORDS)"

definition cache_valid :: "Config \<Rightarrow> HealthEnv \<Rightarrow> ProcessState \<Rightarrow> bool" where
  "cache_valid cfg env st =
     (case healthCache st of
        None \<Rightarrow> False
      | Some entry \<Rightarrow> now_check env - timestamp entry < HEALTH_CACHE_TTL cfg)"

definition noMetrics :: HealthMetrics where
  "noMetrics = \<lparr>uptime = 0, isRunning = False, hasErrors = False, uptimeIncreasing = False\<rparr>"

text \<open>The body of \<^verbatim>\<open>checkBinaryHealth\<close> after the cache test.\<close>

definition computeHealth ::
  "Config \<Rightarrow> HealthEnv \<Rightarrow> ProcessState \<Rightarrow> HealthMetrics \<times> ProcessState \<times> effect list" where
  "computeHealth cfg env st =
     (case process st of
        None \<Rightarrow> (noMetrics, st, [])
      | Some p \<Rightarrow>
          if \<not> truthy_pid (pid p) then (noMetrics, st, [])
          else
            let q = the (pid p) in
            if \<not> alive env q
            then (noMetrics, st, [Probe q, Log LogWarn ''Binary process is not running''])
            else
              let up = extractUptimeFromLogs (logs st);
                  increasing = (up > lastUptime st);
                  st1 = (if increasing then st\<lparr>lastUptime := up\<rparr> else st);
                  warn = (if \<not> increasing \<and> now_grace env - startTime st > STARTUP_GRACE_PERIOD cfg
                          then [Log LogWarn ''Uptime not increasing''] else []);
                  recentLogs = getRecent 50 (logs st1);
                  m = \<lparr>uptime = up, isRunning = True,
                       hasErrors = list_ex has_error_keyword recentLogs,
                       uptimeIncreasing = increasing\<rparr>;
                  pm = perfMetrics st1;
                  total = totalHealthChecks pm + 1;
                  pm1 = pm\<lparr>lastHealthCheckDuration := duration env,
                           totalHealthChecks := total,
                           avgHealthCheckDuration :=
                             (avgHealthCheckDuration pm * of_nat (total - 1) + duration env)
                               / of_nat total,
                           memoryUsage := heapUsed env\<rparr>
              in (m,
                  st1\<lparr>healthCache := Some \<lparr>metrics = m, timestamp = now_store env\<rparr>,
                      perfMetrics := pm1\<rparr>,
                  [Probe q, ScanLogs] @ warn @ [ScanLogs]))"

definition checkBinaryHealth ::
  "Config \<Rightarrow> HealthEnv \<Rightarrow> ProcessState \<Rightarrow> HealthMetrics \<times> ProcessState \<times> effect list" where
  "checkBinaryHealth cfg env st =
     (if cache_valid cfg env st then (metrics (the (healthCache st)), st, [])
      else computeHealth cfg env st)"

text \<open>The verdict of the \<^verbatim>\<open>health\<close> hook on the metrics it was given.\<close>

definition verdict :: "HealthMetrics \<Rightarrow> bool" where
  "verdict m = (isRunning m \<and> \<not> hasErrors m \<and> (uptimeIncreasing m \<or> uptime m > 0))"

text \<open>
  The \<^verbatim>\<open>health\<close> hook. Nothing that \<^verbatim>\<open>checkBinaryHealth\<close> calls raises (the probe
  catches its own exception), so the hook's \<^verbatim>\<open>catch\<close> branch has no path in the model.
\<close>

definition health :: "Config \<Rightarrow> HealthEnv \<Rightarrow> ProcessState \<Rightarrow> bool \<times> ProcessState \<times> effect list" where
  "health cfg env st =
     (case checkBinaryHealth cfg env st of
        (m, st1, effs) \<Rightarrow>
          let healthy = (isRunning m \<and> \<not> hasErrors m \<and> (uptimeIncreasing m \<or> uptime m > 0))
          in (healthy, st1\<lparr>isHealthy := healthy\<rparr>, effs @ [Log LogInfo ''Health check completed'']))"

section \<open>Process management (startBinaryProcess, start, stop)\<close>

text \<open>
  What a call of \<^verbatim>\<open>startBinaryProcess\<close> meets: the exit code of the key-setting process
  and the pid of the spawned binary (\<open>None\<close> when there is none).
\<close>

record SpawnEnv =
  key_exit_code :: int
  spawned_pid :: "nat option"

text \<open>The third argument is the identity given to the new child object.\<close>

definition startBinaryProcess ::
  "string \<Rightarrow> bool \<Rightarrow> Config \<Rightarrow> SpawnEnv \<Rightarrow> nat \<Rightarrow> (error + ChildProcess) \<times> effect list" where
  "startBinaryProcess binaryPath useWrapper cfg env c =
     (let startCommand = (if useWrapper then binaryPath else BINARY_PATH cfg)
      in if \<not> useWrapper
         then (if key_exit_code env \<noteq> 0
               then (Inl InvalidSecretError,
                     [Log LogInfo ''Starting binary process'', SpawnKey,
                      Log LogError ''Key setting failed''])
               else (Inr \<lparr>cid = c, pid = spawned_pid env\<rparr>,
                     [Log LogInfo ''Starting binary process'', SpawnKey,
                      Log LogInfo ''Binary key set successfully'',
                      SpawnBinary c (BINARY_PATH cfg)]))
         else (Inr \<lparr>cid = c, pid = spawned_pid env\<rparr>,
               [Log LogInfo ''Starting binary process'', SpawnBinary c startCommand]))"

text \<open>
  The supervisor as a whole: the global \<^verbatim>\<open>processState\<close>, the global
  \<^verbatim>\<open>binaryWrapperPath\<close>, and what the event loop holds for it. \<open>exitObservers\<close> lists
  the children on which an \<^verbatim>\<open>exit\<close> listener is registered and has not fired, each with the
  \<^verbatim>\<open>binaryPath\<close> and \<^verbatim>\<open>useWrapper\<close> its closure captured; \<open>monitored\<close> lists the
  children whose output streams have line readers; \<open>timers\<close> lists the restart callbacks
  that \<^verbatim>\<open>setTimeout\<close> holds, each with its delay and captured values; \<open>graceWaits\<close>
  counts the \<^verbatim>\<open>start\<close> calls sleeping in their startup delay. \<open>trace\<close> collects the
  effects in order.
\<close>

record World =
  ps :: ProcessState
  binaryWrapperPath :: "string option"
  exitObservers :: "(nat \<times> string \<times> bool) list"
  monitored :: "nat list"
  timers :: "(jsnum \<times> string \<times> bool) list"
  graceWaits :: nat
  nextCid :: nat
  trace :: "effect list"

definition initWorld :: "Config \<Rightarrow> string option \<Rightarrow> World" where
  "initWorld cfg wrapper =
     \<lparr>ps = processState cfg, binaryWrapperPath = wrapper, exitObservers = [], monitored = [],
      timers = [], graceWaits = 0, nextCid = 0, trace = []\<rparr>"

text \<open>\<^verbatim>\<open>monitorProcessLogs\<close>: clears the buffer and attaches the two line readers.\<close>

definition monitorProcessLogs :: "ChildProcess \<Rightarrow> World \<Rightarrow> World" where
  "monitorProcessLogs childProcess w =
     w\<lparr>ps := (ps w)\<lparr>logs := clear (logs (ps w))\<rparr>,
       monitored := monitored w @ [cid childProcess]\<rparr>"

text \<open>
  The \<^verbatim>\<open>start\<close> hook up to its startup delay. Arguments: whether
  \<^verbatim>\<open>env.AUTO_KEY_INJECTION\<close> is \<^verbatim>\<open>'true'\<close>, the clock, and what the spawn meets.
  The reset, the spawn, the log monitoring and the registration of the exit listener are one
  step here: the code awaits the key-setting process between the reset and the rest.
\<close>

definition start ::
  "Config \<Rightarrow> bool \<Rightarrow> int \<Rightarrow> SpawnEnv \<Rightarrow> World \<Rightarrow> (error + unit) \<times> World \<times> effect list" where
  "start cfg envAuto now env w =
     (let st = (ps w)\<lparr>startTime := now, lastUptime := 0, isHealthy := False,
                     restartCount := 0, logs := clear (logs (ps w)), healthCache := None,
                     perfMetrics := zeroMetrics\<rparr>;
          useWrapper = (AUTO_KEY_INJECTION cfg \<or> envAuto);
          binaryPath = (case binaryWrapperPath w of
                          Some path \<Rightarrow> if useWrapper \<and> path \<noteq> [] then path else BINARY_PATH cfg
                        | None \<Rightarrow> BINARY_PATH cfg)
      in case startBinaryProcess binaryPath useWrapper cfg env (nextCid w) of
           (Inl e, effs) \<Rightarrow>
             (Inl e, w\<lparr>ps := st\<rparr>,
              Log LogInfo ''Starting binary service'' # effs @
                [Log LogError ''Failed to start binary''])
         | (Inr child, effs) \<Rightarrow>
             let w1 = w\<lparr>ps := st\<lparr>process := Some child\<rparr>, nextCid := Suc (nextCid w)\<rparr>
             in if \<not> truthy_pid (pid child)
                then (Inl BinaryStartError, w1,
                      Log LogInfo ''Starting binary service'' # effs @
                        [Log LogError ''Failed to start binary''])
                else
                  let w2 = monitorProcessLogs child w1
                  in (Inr (),
                      w2\<lparr>exitObservers := exitObservers w2 @ [(cid child, binaryPath, useWrapper)],
                         graceWaits := Suc (graceWaits w2)\<rparr>,
                      Log LogInfo ''Starting binary service'' # effs @
                        [Log LogInfo ''Binary started with PID'']))"

text \<open>The rest of \<^verbatim>\<open>start\<close>, after the startup delay: the initial health reading.\<close>

definition start_initial_health ::
  "Config \<Rightarrow> HealthEnv \<Rightarrow> ProcessState \<Rightarrow> ProcessState \<times> effect list" where
  "start_initial_health cfg env st =
     (case checkBinaryHealth cfg env st of
        (h, st1, effs) \<Rightarrow>
          (st1\<lparr>isHealthy := (isRunning h \<and> (uptimeIncreasing h \<or> uptime h > 0))\<rparr>,
           effs @ [Log LogInfo ''Binary startup completed'']))"

text \<open>
  The listener that \<^verbatim>\<open>start\<close> registers for the \<^verbatim>\<open>exit\<close> event of the child it
  spawned. Arguments: the captured \<^verbatim>\<open>binaryPath\<close> and \<^verbatim>\<open>useWrapper\<close>, the value of
  \<^verbatim>\<open>Math.random()\<close> and the clock.
\<close>

definition exit_listener ::
  "Config \<Rightarrow> string \<times> bool \<Rightarrow> rat \<Rightarrow> int \<Rightarrow> World \<Rightarrow> World \<times> effect list" where
  "exit_listener cfg captured random now w =
     (let st = (ps w)\<lparr>isHealthy := False\<rparr>
      in if int (restartCount st) < MAX_RESTART_ATTEMPTS cfg
         then
           let st1 = st\<lparr>restartCount := restartCount st + 1\<rparr>;
               backoff = calculateBackoff (Fin random) (restartCount st1 - 1)
                           (round_double (of_int (RESTART_DELAY cfg))) (Fin 30000);
               st2 = st1\<lparr>perfMetrics := (perfMetrics st1)\<lparr>lastRestartTime := now\<rparr>\<rparr>
           in (w\<lparr>ps := st2, timers := timers w @ [(backoff, captured)]\<rparr>,
               [Log LogError ''Binary process exited'', Log LogInfo ''Attempting restart'',
                SetTimeout backoff])
         else (w\<lparr>ps := st\<rparr>,
               [Log LogError ''Binary process exited'',
                Log LogError ''Maximum restart attempts reached. Manual intervention required.'']))"

text \<open>The callback handed to \<^verbatim>\<open>setTimeout\<close> by the exit listener.\<close>

definition restart_callback ::
  "Config \<Rightarrow> string \<times> bool \<Rightarrow> SpawnEnv \<Rightarrow> int \<Rightarrow> World \<Rightarrow> World \<times> effect list" where
  "restart_callback cfg captured env now w =
     (case startBinaryProcess (fst captured) (snd captured) cfg env (nextCid w) of
        (Inl e, effs) \<Rightarrow> (w, effs @ [Log LogError ''Failed to restart binary''])
      | (Inr child, effs) \<Rightarrow>
          let w1 = monitorProcessLogs child
                     (w\<lparr>ps := (ps w)\<lparr>process := Some child\<rparr>, nextCid := Suc (nextCid w)\<rparr>)
          in (w1\<lparr>ps := (ps w1)\<lparr>startTime := now, healthCache := None\<rparr>\<rparr>, effs))"

text \<open>
  What a call of \<^verbatim>\<open>stop\<close> meets: the answer of its \<open>k\<close>-th liveness probe, the time
  its \<open>k\<close>-th \<^verbatim>\<open>delay(100)\<close> takes beyond 100 ms, and whether the wrapper file can be
  removed. Time passes in the sleeps only.
\<close>

record StopEnv =
  poll_alive :: "nat \<Rightarrow> bool"
  sleep_lag :: "nat \<Rightarrow> nat"
  unlink_ok :: bool

text \<open>The polling loop of \<^verbatim>\<open>stop\<close>: the value of \<^verbatim>\<open>shutdownComplete\<close> at its end and
  the effects. \<open>elapsed\<close> is \<^verbatim>\<open>Date.now() - startTime\<close>, \<open>k\<close> counts the probes made.\<close>

function stop_wait :: "StopEnv \<Rightarrow> int \<Rightarrow> nat option \<Rightarrow> int \<Rightarrow> nat \<Rightarrow> bool \<times> effect list" where
  "stop_wait env timeout p elapsed k =
     (if elapsed < timeout
      then (if \<not> truthy_pid p then (True, [])
            else if \<not> poll_alive env k then (True, [Probe (the p)])
            else (case stop_wait env timeout p (elapsed + 100 + int (sleep_lag env k)) (Suc k) of
                    (finished, effs) \<Rightarrow> (finished, Probe (the p) # Sleep 100 # effs)))
      else (False, []))"
  by pat_completeness auto
termination
  by (relation "measure (\<lambda>(env, timeout, p, elapsed, k). nat (timeout - elapsed))") auto

declare stop_wait.simps [simp del]

text \<open>The \<^verbatim>\<open>stop\<close> hook; the second argument is the global \<^verbatim>\<open>binaryWrapperPath\<close>.\<close>

definition stop ::
  "Config \<Rightarrow> string option \<Rightarrow> StopEnv \<Rightarrow> ProcessState \<Rightarrow> (error + unit) \<times> ProcessState \<times> effect list" where
  "stop cfg wrapper env st =
     (case process st of
        None \<Rightarrow> (Inr (), st, [Log LogInfo ''Stopping binary service'', Log LogWarn ''No process to stop''])
      | Some p \<Rightarrow>
          (case stop_wait env (SHUTDOWN_TIMEOUT cfg) (pid p) 0 0 of
             (shutdownComplete, polls) \<Rightarrow>
               let force = (if \<not> shutdownComplete \<and> truthy_pid (pid p)
                            then [Log LogWarn ''Graceful shutdown timeout, forcing kill'',
                                  Kill (cid p) SIGKILL]
                            else []);
                   cleanup = (case wrapper of
                                None \<Rightarrow> []
                              | Some path \<Rightarrow>
                                  if path \<noteq> [] \<and> path \<noteq> BINARY_PATH cfg
                                  then Unlink path #
                                       (if unlink_ok env
                                        then [Log LogInfo ''Cleaned up binary wrapper'']
                                        else [Log LogWarn ''Failed to clean up wrapper''])
                                  else [])
               in (Inr (),
                   st\<lparr>process := None, isHealthy := False, logs := clear (logs st),
                      healthCache := None\<rparr>,
                   [Log LogInfo ''Stopping binary service'', Kill (cid p) SIGTERM,
                    Log LogInfo ''Sent SIGTERM to binary process''] @ polls @ force @ cleanup @
                   [Log LogInfo ''Binary service stopped successfully''])))"

section \<open>Executions\<close>

text \<open>
  What can happen to the supervisor: the host calls a hook, a child exits, a timer fires, a
  child writes a line. A child's \<^verbatim>\<open>exit\<close> event reaches the listener registered on that
  child, once; a line reaches the readers attached to that child's streams.
\<close>

datatype event =
    CallStart bool int SpawnEnv
  | GraceOver HealthEnv
  | ChildExit nat rat int
  | TimerFires nat SpawnEnv int
  | StdoutLine ChildProcess string rat
  | StderrLine ChildProcess string
  | CallHealth HealthEnv
  | CallStop StopEnv

definition emit :: "World \<times> effect list \<Rightarrow> World" where
  "emit r = (fst r)\<lparr>trace := trace (fst r) @ snd r\<rparr>"

definition on_state :: "World \<Rightarrow> ProcessState \<times> effect list \<Rightarrow> World" where
  "on_state w r = emit (w\<lparr>ps := fst r\<rparr>, snd r)"

fun step :: "Config \<Rightarrow> World \<Rightarrow> event \<Rightarrow> World" where
  "step cfg w (CallStart envAuto now env) = emit (snd (start cfg envAuto now env w))"
| "step cfg w (GraceOver env) =
     (if graceWaits w = 0 then w
      else on_state (w\<lparr>graceWaits := graceWaits w - 1\<rparr>) (start_initial_health cfg env (ps w)))"
| "step cfg w (ChildExit c random now) =
     (case map_of (exitObservers w) c of
        None \<Rightarrow> w
      | Some captured \<Rightarrow>
          emit (exit_listener cfg captured random now
                  (w\<lparr>exitObservers := filter (\<lambda>ob. fst ob \<noteq> c) (exitObservers w)\<rparr>)))"
| "step cfg w (TimerFires i env now) =
     (if i < length (timers w)
      then emit (restart_callback cfg (snd (timers w ! i)) env now
                   (w\<lparr>timers := take i (timers w) @ drop (Suc i) (timers w)\<rparr>))
      else w)"
| "step cfg w (StdoutLine child line elapsed) =
     (if cid child \<in> set (monitored w) then on_state w (stdout_line line elapsed (ps w)) else w)"
| "step cfg w (StderrLine child line) =
     (if cid child \<in> set (monitored w) then on_state w (stderr_line child line (ps w)) else w)"
| "step cfg w (CallHealth env) = on_state w (snd (health cfg env (ps w)))"
| "step cfg w (CallStop env) = on_state w (snd (stop cfg (binaryWrapperPath w) env (ps w)))"

definition run :: "Config \<Rightarrow> World \<Rightarrow> event list \<Rightarrow> World" where
  "run cfg w evs = foldl (step cfg) w evs"


definition restart_attempts :: "World \<Rightarrow> nat" where
  "restart_attempts w = length (filter (\<lambda>e. case e of SetTimeout _ \<Rightarrow> True | _ \<Rightarrow> False) (trace w))"

definition spawns :: "World \<Rightarrow> nat" where
  "spawns w = length (filter (\<lambda>e. case e of SpawnBinary _ _ \<Rightarrow> True | _ \<Rightarrow> False) (trace w))"

section \<open>The default configuration and sample environments\<close>

text \<open>The values \<^verbatim>\<open>CONFIG\<close> takes when no environment variable is set.\<close>

definition defaultConfig :: Config where
  "defaultConfig =
     \<lparr>BINARY_PATH = ''/app/binary'', STARTUP_GRACE_PERIOD = 5000, MAX_RESTART_ATTEMPTS = 3,
      RESTART_DELAY = 2000, AUTO_KEY_INJECTION = False, MAX_LOG_LINES = 1000,
      SHUTDOWN_TIMEOUT = 10000, HEALTH_CACHE_TTL = 500\<rparr>"

text \<open>An evaluation at time \<open>t\<close> during which the clock stands still and every probe
  answers \<open>a\<close>.\<close>

definition healthEnvAt :: "int \<Rightarrow> bool \<Rightarrow> HealthEnv" where
  "healthEnvAt t a =
     \<lparr>now_check = t, alive = (\<lambda>_. a), now_grace = t, now_store = t, duration = 1,
      heapUsed = 0\<rparr>"

text \<open>A spawn that succeeds with the given pid.\<close>

definition spawnOk :: "nat \<Rightarrow> SpawnEnv" where
  "spawnOk n = \<lparr>key_exit_code = 0, spawned_pid = Some n\<rparr>"

text \<open>The state in which \<^verbatim>\<open>start\<close> has spawned a child with pid 4242 under the default
  configuration and the child has written the given lines to its standard output.\<close>

definition sampleChild :: ChildProcess where
  "sampleChild = \<lparr>cid = 0, pid = Some 4242\<rparr>"

definition sampleState :: "string list \<Rightarrow> ProcessState" where
  "sampleState ls =
     (processState defaultConfig)
       \<lparr>process := Some sampleChild,
        logs := push_all ls (logs (processState defaultConfig))\<rparr>"

text \<open>An evaluation under the default configuration at time \<open>t\<close>, every probe answering
  \<open>a\<close>.\<close>

definition evalAt ::
  "int \<Rightarrow> bool \<Rightarrow> ProcessState \<Rightarrow> HealthMetrics \<times> ProcessState \<times> effect list" where
  "evalAt t a st = checkBinaryHealth defaultConfig (healthEnvAt t a) st"


section \<open>Auxiliary notions for the shutdown loop and for executions\<close>

text \<open>The effects of \<open>n\<close> rounds of the polling loop that found the process alive: a
  probe of pid \<open>q\<close>, then a sleep of 100 ms.\<close>

definition poll_rounds :: "nat \<Rightarrow> nat \<Rightarrow> effect list" where
  "poll_rounds q n = concat (replicate n [Probe q, Sleep 100])"

text \<open>The time that \<open>n\<close> sleeps take, starting with the \<open>k\<close>-th.\<close>

fun sleeps_take :: "StopEnv \<Rightarrow> nat \<Rightarrow> nat \<Rightarrow> int" where
  "sleeps_take env k 0 = 0"
| "sleeps_take env k (Suc n) = 100 + int (sleep_lag env k) + sleeps_take env (Suc k) n"


text \<open>The number of timers set among a list of effects.\<close>

definition timeouts :: "effect list \<Rightarrow> nat" where
  "timeouts effs = length (filter (\<lambda>e. case e of SetTimeout _ \<Rightarrow> True | _ \<Rightarrow> False) effs)"

section \<open>Properties of the ring log buffer\<close>

text \<open>Under the invariant every cell of the read window is written, so \<open>getAll\<close> is a
  plain map over the window.\<close>

lemma map_filter_all_Some:
  "(\<And>x. x \<in> set xs \<Longrightarrow> f x \<noteq> None) \<Longrightarrow> List.map_filter f xs = map (\<lambda>x. the (f x)) xs"
proof (induction xs)
  case Nil
  show ?case by (simp add: List.map_filter_simps)
next
  case (Cons a xs)
  from Cons.prems[of a] obtain y where "f a = Some y" by auto
  moreover have "List.map_filter f xs = map (\<lambda>x. the (f x)) xs"
    by (rule Cons.IH) (simp add: Cons.prems)
  ultimately show ?case by (simp add: List.map_filter_simps)
qed

lemma getAll_wf:
  assumes "wf b"
  shows "getAll b = map (\<lambda>i. the (buffer b ((start_of b + i) mod capacity b))) [0..<sizeCB b]"
proof -
  from assms obtain h where h: "head b = Some h" "h < capacity b" "sizeCB b < capacity b \<longrightarrow> h = sizeCB b"
    and c: "0 < capacity b" "sizeCB b \<le> capacity b" and d: "\<forall>i < sizeCB b. buffer b i \<noteq> None"
    by (auto simp: wf_def)
  have idx: "js_mod (js_plus (if sizeCB b = capacity b then head b else Some 0) i) (capacity b)
        = Some ((start_of b + i) mod capacity b)" for i
    using h c by (simp add: js_mod_def js_plus_def start_of_def)
  have def: "buffer b ((start_of b + i) mod capacity b) \<noteq> None" if "i < sizeCB b" for i
  proof (cases "sizeCB b = capacity b")
    case True
    then show ?thesis using d c by simp
  next
    case False
    then have "start_of b = 0" "i < capacity b" using that c by (auto simp: start_of_def)
    then show ?thesis using d that by simp
  qed
  show ?thesis
    unfolding getAll_def Let_def idx slot_def option.case
    by (rule map_filter_all_Some) (use def in auto)
qed

lemma length_getAll_wf: "wf b \<Longrightarrow> length (getAll b) = sizeCB b"
  by (simp add: getAll_wf)

lemma wf_push: assumes "wf b" shows "wf (push x b)"
proof -
  from assms obtain h where h: "head b = Some h" "h < capacity b" "sizeCB b < capacity b \<longrightarrow> h = sizeCB b"
    and c: "0 < capacity b" "sizeCB b \<le> capacity b" and d: "\<forall>i < sizeCB b. buffer b i \<noteq> None"
    by (auto simp: wf_def)
  show ?thesis
    using h c d
    by (auto simp: wf_def push_def Let_def js_mod_def js_plus_def min_def mod_Suc)
qed

lemma getAll_push_notfull:
  assumes "wf b" "sizeCB b < capacity b"
  shows "getAll (push x b) = getAll b @ [x]"
proof -
  from assms obtain h: "head b = Some (sizeCB b)" 
    and c: "0 < capacity b" 
    by (auto simp: wf_def)
  have w: "wf (push x b)" using assms(1) by (rule wf_push)
  have s: "sizeCB (push x b) = Suc (sizeCB b)" "capacity (push x b) = capacity b"
      "buffer (push x b) = (buffer b)(sizeCB b \<mapsto> x)"
    using assms(2) h by (auto simp: push_def Let_def)
  have st: "(start_of (push x b) + i) mod capacity b = i" if "i < Suc (sizeCB b)" for i
    using that assms(2) h c by (auto simp: start_of_def push_def Let_def js_mod_def js_plus_def)
  have st0: "(start_of b + i) mod capacity b = i" if "i < sizeCB b" for i
    using that assms(2) by (auto simp: start_of_def)
  show ?thesis
    by (simp add: getAll_wf[OF w] getAll_wf[OF assms(1)] s st st0)
qed

lemma getAll_push_full:
  assumes "wf b" "sizeCB b = capacity b"
  shows "getAll (push x b) = tl (getAll b) @ [x]"
proof -
  from assms obtain h where h: "head b = Some h" "h < capacity b"
    and c: "0 < capacity b" 
    by (auto simp: wf_def)
  let ?N = "capacity b"
  have w: "wf (push x b)" using assms(1) by (rule wf_push)
  have s: "sizeCB (push x b) = ?N" "capacity (push x b) = ?N"
      "buffer (push x b) = (buffer b)(h \<mapsto> x)" "start_of (push x b) = Suc h mod ?N"
      "start_of b = h"
    using assms(2) h by (auto simp: push_def Let_def start_of_def js_mod_def js_plus_def)
  show ?thesis
  proof (rule nth_equalityI)
    show "length (getAll (push x b)) = length (tl (getAll b) @ [x])"
      using c by (simp add: length_getAll_wf[OF w] length_getAll_wf[OF assms(1)] s assms(2))
  next
    fix i assume "i < length (getAll (push x b))"
    then have i: "i < ?N" by (simp add: length_getAll_wf[OF w] s)
    have e: "(Suc h mod ?N + i) mod ?N = (h + Suc i) mod ?N"
      by (metis add_Suc add_Suc_right mod_add_left_eq)
    show "getAll (push x b) ! i = (tl (getAll b) @ [x]) ! i"
    proof (cases "Suc i = ?N")
      case True
      then have "(h + Suc i) mod ?N = h" using h by simp
      moreover have "\<not> i < ?N - Suc 0" using True by simp
      ultimately show ?thesis using i
        by (simp add: getAll_wf[OF w] getAll_wf[OF assms(1)] s assms(2) e nth_append)
    next
      case False
      then have lt: "Suc i < ?N" using i by simp
      have "(h + Suc i) mod ?N \<noteq> h"
      proof
        assume a: "(h + Suc i) mod ?N = h"
        have "(h + Suc i) mod ?N = (if h + Suc i < ?N then h + Suc i else h + Suc i - ?N)"
          using h lt by (simp add: mod_if)
        with a lt show False by (auto split: if_splits)
      qed
      moreover have "i < ?N - Suc 0" using lt by simp
      ultimately show ?thesis using lt i
        by (simp add: getAll_wf[OF w] getAll_wf[OF assms(1)] s assms(2) e nth_append nth_tl)
    qed
  qed
qed


lemma wf_new: "0 < N \<Longrightarrow> wf (newCircularBuffer N)"
  by (simp add: wf_def newCircularBuffer_def)

lemma getAll_new: "getAll (newCircularBuffer N) = []"
  by (simp add: getAll_def newCircularBuffer_def List.map_filter_simps)

lemma capacity_new: "capacity (newCircularBuffer N) = N"
  by (simp add: newCircularBuffer_def)

lemma capacity_push: "capacity (push x b) = capacity b"
  by (simp add: push_def Let_def split: option.splits)

lemma push_all_snoc: "push_all (xs @ [x]) b = push x (push_all xs b)"
  by (simp add: push_all_def)

lemma push_all_pos:
  assumes "0 < N"
  shows "wf (push_all xs (newCircularBuffer N)) \<and> capacity (push_all xs (newCircularBuffer N)) = N
     \<and> getAll (push_all xs (newCircularBuffer N)) = drop (length xs - N) xs"
proof (induction xs rule: rev_induct)
  case Nil
  show ?case using assms by (simp add: push_all_def wf_new getAll_new capacity_new)
next
  case (snoc x xs)
  let ?b = "push_all xs (newCircularBuffer N)"
  from snoc have w: "wf ?b" and c: "capacity ?b = N" and g: "getAll ?b = drop (length xs - N) xs" by auto
  have sz: "sizeCB ?b = min (length xs) N" using length_getAll_wf[OF w] g by simp
  have "getAll (push x ?b) = drop (length (xs @ [x]) - N) (xs @ [x])"
  proof (cases "length xs < N")
    case True
    then have "sizeCB ?b < capacity ?b" using sz c by simp
    from getAll_push_notfull[OF w this] show ?thesis using True g by simp
  next
    case False
    then have "sizeCB ?b = capacity ?b" using sz c by simp
    from getAll_push_full[OF w this] show ?thesis using False g assms
      by (simp add: drop_Suc[symmetric] tl_drop Suc_diff_le)
  qed
  then show ?case using wf_push[OF w] c by (simp add: push_all_snoc capacity_push)
qed

lemma push_zero: "capacity b = 0 \<Longrightarrow> sizeCB b = 0 \<Longrightarrow> capacity (push x b) = 0 \<and> sizeCB (push x b) = 0"
  by (simp add: push_def Let_def split: option.splits)

lemma push_all_zero: "capacity (push_all xs (newCircularBuffer 0)) = 0 \<and> sizeCB (push_all xs (newCircularBuffer 0)) = 0"
  by (induction xs rule: rev_induct) (simp_all add: push_all_def newCircularBuffer_def push_zero)

lemma getAll_size0: "sizeCB b = 0 \<Longrightarrow> getAll b = []"
  by (simp add: getAll_def List.map_filter_simps)

lemma getAll_push_all: "getAll (push_all xs (newCircularBuffer N)) = drop (length xs - N) xs"
  by (cases "N = 0") (simp_all add: push_all_pos getAll_size0 push_all_zero)

lemma sizeCB_push_all: "sizeCB (push_all xs (newCircularBuffer N)) = min (length xs) N"
proof (cases "N = 0")
  case True then show ?thesis by (simp add: push_all_zero)
next
  case False
  then have "0 < N" by simp
  from push_all_pos[OF this, of xs] show ?thesis 
    using length_getAll_wf[of "push_all xs (newCircularBuffer N)"] by simp
qed

lemma slice_from_neg: "0 < k \<Longrightarrow> slice_from ys (- k) = drop (length ys - nat k) ys"
  by (simp add: slice_from_def Let_def max_def nat_diff_distrib')

lemma slice_from_zero: "slice_from ys 0 = ys"
  by (simp add: slice_from_def Let_def)

lemma getRecent_push_all:
  assumes "0 < k"
  shows "getRecent k (push_all xs (newCircularBuffer N)) = drop (length xs - min (nat k) N) xs"
proof -
  have e: "length (drop (length xs - N) xs) - nat k + (length xs - N) = length xs - min (nat k) N"
    by (simp only: length_drop)
  have "getRecent k (push_all xs (newCircularBuffer N))
          = drop (length (drop (length xs - N) xs) - nat k) (drop (length xs - N) xs)"
    by (simp only: getRecent_def getAll_push_all slice_from_neg[OF assms])
  also have "\<dots> = drop (length xs - min (nat k) N) xs"
    by (simp only: drop_drop e)
  finally show ?thesis .
qed

text \<open>
  C7, on the code. The claim: after any sequence of pushes into a buffer of capacity \<open>N\<close>
  the stored size is at most \<open>N\<close>, and \<open>recent(k)\<close>, for every \<open>k \<le> N\<close>, is the last
  \<open>k\<close> pushed lines in push order (all of them when fewer were pushed). The size bound
  holds (\<open>sizeCB_push_all\<close>) and so does the window for every \<open>k \<ge> 1\<close>
  (\<open>getRecent_push_all\<close>). For \<open>k = 0\<close> the code does not return the empty list:
  \<^verbatim>\<open>all.slice(-0)\<close> is \<^verbatim>\<open>all.slice(0)\<close>, the whole stored content. After the pushes
  a, b, c into a buffer of capacity 2, \<open>getRecent 0\<close> is [b, c].
\<close>

theorem getRecent_zero_returns_all:
  "getRecent 0 (push_all [''a'', ''b'', ''c''] (newCircularBuffer 2)) = [''b'', ''c'']
   \<and> getRecent 0 (push_all xs (newCircularBuffer N)) = drop (length xs - N) xs"
  by (simp add: getRecent_def slice_from_zero getAll_push_all)

section \<open>Properties of uptime extraction\<close>

lemma scan_lines_none:
  "\<forall>l\<in>set ls. scan_patterns UPTIME_PATTERNS l = None \<Longrightarrow> scan_lines ls = 0"
  by (induction ls) auto

lemma scan_lines_first:
  "scan_patterns UPTIME_PATTERNS l = Some v \<Longrightarrow>
   \<forall>l'\<in>set newer. scan_patterns UPTIME_PATTERNS l' = None \<Longrightarrow>
   scan_lines (newer @ l # older) = v"
  by (induction newer) auto

lemma scan_uptime_12: "scan_patterns UPTIME_PATTERNS ''uptime: 12 seconds'' = Some 12"
  by code_simp

lemma drop_three:
  assumes "0 < m"
  shows "\<exists>ys. rev (drop (length [a, b, c] - m) [a, b, c]) = c # ys"
proof -
  from assms consider "m = 1" | "m = 2" | "3 \<le> m" by linarith
  then show ?thesis by cases auto
qed

text \<open>
  C6. The scan runs over the 50 most recent buffered lines, newest first. When none of them
  matches a pattern the result is 0. Otherwise the result is the number read from the most
  recent line that matches: whatever older lines say, and with the value taken from the
  first pattern of \<open>UPTIME_PATTERNS\<close> that matches that line. On the lines "starting",
  "uptime: 5 seconds", "uptime: 12 seconds", pushed in this order into a buffer of any
  positive capacity, the result is 12.
\<close>

theorem extractUptimeFromLogs_newest_match:
  "((\<forall>l\<in>set (getRecent 50 buf). scan_patterns UPTIME_PATTERNS l = None)
      \<longrightarrow> extractUptimeFromLogs buf = 0)
   \<and> (\<forall>older l newer v.
        getRecent 50 buf = older @ l # newer
        \<and> scan_patterns UPTIME_PATTERNS l = Some v
        \<and> (\<forall>l'\<in>set newer. scan_patterns UPTIME_PATTERNS l' = None)
        \<longrightarrow> extractUptimeFromLogs buf = v)
   \<and> (0 < N \<longrightarrow>
        extractUptimeFromLogs
          (push_all [''starting'', ''uptime: 5 seconds'', ''uptime: 12 seconds'']
             (newCircularBuffer N)) = 12)"
proof (intro conjI impI allI)
  assume "\<forall>l\<in>set (getRecent 50 buf). scan_patterns UPTIME_PATTERNS l = None"
  then show "extractUptimeFromLogs buf = 0"
    by (simp add: extractUptimeFromLogs_def scan_lines_none)
next
  fix older l newer v
  assume a: "getRecent 50 buf = older @ l # newer
        \<and> scan_patterns UPTIME_PATTERNS l = Some v
        \<and> (\<forall>l'\<in>set newer. scan_patterns UPTIME_PATTERNS l' = None)"
  then have "scan_lines (rev newer @ l # rev older) = v"
    by (intro scan_lines_first) auto
  with a show "extractUptimeFromLogs buf = v"
    by (simp add: extractUptimeFromLogs_def)
next
  assume N: "0 < N"
  let ?xs = "[''starting'', ''uptime: 5 seconds'', ''uptime: 12 seconds'']"
  have "0 < min (nat 50) N" using N by simp
  from drop_three[OF this, of "''starting''" "''uptime: 5 seconds''" "''uptime: 12 seconds''"]
  obtain ys where
    "rev (drop (length ?xs - min (nat 50) N) ?xs) = ''uptime: 12 seconds'' # ys" by blast
  moreover have "getRecent 50 (push_all ?xs (newCircularBuffer N))
      = drop (length ?xs - min (nat 50) N) ?xs"
    by (rule getRecent_push_all) simp
  ultimately have "extractUptimeFromLogs (push_all ?xs (newCircularBuffer N))
      = scan_lines (''uptime: 12 seconds'' # ys)"
    by (simp only: extractUptimeFromLogs_def)
  then show "extractUptimeFromLogs (push_all ?xs (newCircularBuffer N)) = 12"
    by (simp add: scan_uptime_12)
qed

theorem extractUptimeFromLogs_newest_match_witness:
  "extractUptimeFromLogs (push_all [''starting'', ''idle''] (newCircularBuffer 1000)) = 0
   \<and> extractUptimeFromLogs
        (push_all [''Alive: 3s'', ''been running  for 7.5 s'', ''stopping'']
           (newCircularBuffer 2)) = 15 / 2
   \<and> extractUptimeFromLogs
        (push_all [''starting'', ''uptime: 5 seconds'', ''uptime: 12 seconds'']
           (newCircularBuffer 1000)) = 12"
proof -
  let ?b1 = "push_all [''starting'', ''idle''] (newCircularBuffer 1000)"
  let ?b2 = "push_all [''Alive: 3s'', ''been running  for 7.5 s'', ''stopping''] (newCircularBuffer 2)"
  have g1: "getRecent 50 ?b1 = [''starting'', ''idle'']"
    by (simp add: getRecent_push_all)
  have g2: "getRecent 50 ?b2 = [] @ ''been running  for 7.5 s'' # [''stopping'']"
    by (simp add: getRecent_push_all)
  have n1: "scan_patterns UPTIME_PATTERNS ''starting'' = None" by code_simp
  have n2: "scan_patterns UPTIME_PATTERNS ''idle'' = None" by code_simp
  have n3: "scan_patterns UPTIME_PATTERNS ''stopping'' = None" by code_simp
  have v: "scan_patterns UPTIME_PATTERNS ''been running  for 7.5 s'' = Some (15 / 2)" by code_simp
  have h1: "\<forall>l\<in>set (getRecent 50 ?b1). scan_patterns UPTIME_PATTERNS l = None"
    using n1 n2 by (simp add: g1)
  have h2: "getRecent 50 ?b2 = [] @ ''been running  for 7.5 s'' # [''stopping'']
        \<and> scan_patterns UPTIME_PATTERNS ''been running  for 7.5 s'' = Some (15 / 2)
        \<and> (\<forall>l'\<in>set [''stopping'']. scan_patterns UPTIME_PATTERNS l' = None)"
    using g2 v n3 by simp
  have h3: "0 < (1000::nat)" by simp
  note t1 = extractUptimeFromLogs_newest_match[of ?b1, THEN conjunct1, THEN mp, OF h1]
  note t2 = extractUptimeFromLogs_newest_match[of ?b2, THEN conjunct2, THEN conjunct1, THEN spec, THEN spec, THEN spec, THEN spec, THEN mp, OF h2]
  note t3 = extractUptimeFromLogs_newest_match[of ?b1 1000, THEN conjunct2, THEN conjunct2, THEN mp, OF h3]
  from t1 t2 t3 show ?thesis by (intro conjI)
qed

section \<open>Properties of double rounding\<close>

text \<open>Powers of two and the exponent of a rational.\<close>

lemma p2_pos: "0 < (2::rat) powi e"
  by (simp add: zero_less_power_int)


lemma p2_diff: "(2::rat) powi (a - b) = 2 powi a / 2 powi b"
  by (simp add: power_int_diff)

lemma p2_mono: "a \<le> b \<Longrightarrow> (2::rat) powi a \<le> 2 powi b"
  by (simp add: power_int_increasing)

lemma p2_strict: "a < b \<Longrightarrow> (2::rat) powi a < 2 powi b"
  by (simp add: power_int_strict_increasing)

lemma p2_le_iff: "((2::rat) powi a \<le> 2 powi b) = (a \<le> b)"
  using p2_mono[of a b] p2_strict[of b a] by fastforce

lemma p2_less_iff: "((2::rat) powi a < 2 powi b) = (a < b)"
  using p2_strict[of a b] p2_mono[of b a] by fastforce

lemma bitlen_powi:
  assumes "0 < (a::int)"
  shows "(2::rat) powi (bitlen a - 1) \<le> of_int a" "of_int a < (2::rat) powi (bitlen a)"
proof -
  from bitlen_bounds[OF assms] have b: "2 ^ nat (bitlen a - 1) \<le> a" "a < 2 ^ nat (bitlen a)" by simp_all
  have l: "1 \<le> bitlen a" using assms by (simp add: bitlen_ge_iff_power)
  have "(2::rat) powi (bitlen a - 1) = 2 ^ nat (bitlen a - 1)"
    using l by (simp add: power_int_def)
  also have "\<dots> = of_int (2 ^ nat (bitlen a - 1))" by simp
  also have "\<dots> \<le> of_int a" using b(1) by (simp only: of_int_le_iff)
  finally show "(2::rat) powi (bitlen a - 1) \<le> of_int a" .
  have "(of_int a :: rat) < of_int (2 ^ nat (bitlen a))" using b(2) by (simp only: of_int_less_iff)
  also have "\<dots> = 2 powi (bitlen a)" using l by (simp add: power_int_def)
  finally show "of_int a < (2::rat) powi (bitlen a)" .
qed

lemma binade_bounds:
  assumes "x \<noteq> 0"
  shows "2 powi (binade x) \<le> \<bar>x\<bar>" "\<bar>x\<bar> < 2 powi (binade x + 1)"
proof -
  obtain n d where q: "quotient_of x = (n, d)" by (cases "quotient_of x")
  then have d: "0 < d" and x: "x = of_int n / of_int d"
    using quotient_of_denom_pos[of x n d] quotient_of_div[of x n d] by simp_all
  from assms x have n: "n \<noteq> 0" by auto
  let ?a = "\<bar>n\<bar>"
  have a: "0 < ?a" using n by simp
  have ax: "\<bar>x\<bar> = of_int ?a / of_int d" using d by (simp add: x abs_divide)
  have dpos: "(0::rat) < of_int d" and apos: "(0::rat) < of_int ?a" using d a by simp_all
  let ?e0 = "bitlen ?a - bitlen d"
  have up: "\<bar>x\<bar> < 2 powi (?e0 + 1)"
  proof -
    have "of_int ?a / of_int d < (2::rat) powi (bitlen ?a) / of_int d"
      using bitlen_powi(2)[OF a] d by (simp add: divide_strict_right_mono)
    also have "\<dots> \<le> 2 powi (bitlen ?a) / 2 powi (bitlen d - 1)"
      using bitlen_powi(1)[OF d] p2_pos[of "bitlen d - 1"] p2_pos[of "bitlen ?a"] dpos
      by (intro divide_left_mono mult_pos_pos) simp_all
    also have "\<dots> = 2 powi (?e0 + 1)" by (simp add: p2_diff[symmetric] algebra_simps)
    finally show ?thesis by (simp add: ax)
  qed
  have lo: "2 powi (?e0 - 1) \<le> \<bar>x\<bar>"
  proof -
    have "(2::rat) powi (?e0 - 1) = 2 powi (bitlen ?a - 1) / 2 powi (bitlen d)"
      by (simp add: p2_diff[symmetric] algebra_simps)
    also have "\<dots> \<le> of_int ?a / 2 powi (bitlen d)"
      using bitlen_powi(1)[OF a] p2_pos[of "bitlen d"] by (simp add: divide_right_mono)
    also have "\<dots> \<le> of_int ?a / of_int d"
      using bitlen_powi(2)[OF d] dpos apos p2_pos[of "bitlen d"]
      by (intro divide_left_mono mult_pos_pos) simp_all
    finally show ?thesis by (simp add: ax)
  qed
  have b: "binade x = (if 2 powi ?e0 \<le> \<bar>x\<bar> then ?e0 else ?e0 - 1)"
    by (simp add: binade_def q Let_def)
  show "2 powi (binade x) \<le> \<bar>x\<bar>" using lo by (simp add: b)
  show "\<bar>x\<bar> < 2 powi (binade x + 1)" using up by (auto simp: b)
qed



lemma binade_ge_iff: "x \<noteq> 0 \<Longrightarrow> (e \<le> binade x) = (2 powi e \<le> \<bar>x\<bar>)"
proof
  assume "x \<noteq> 0" "e \<le> binade x"
  then have "(2::rat) powi e \<le> 2 powi (binade x)" by (simp only: p2_le_iff)
  also have "\<dots> \<le> \<bar>x\<bar>" by (rule binade_bounds[OF \<open>x \<noteq> 0\<close>])
  finally show "2 powi e \<le> \<bar>x\<bar>" .
next
  assume "x \<noteq> 0" "2 powi e \<le> \<bar>x\<bar>"
  then have "(2::rat) powi e < 2 powi (binade x + 1)"
    using binade_bounds(2)[of x] by (auto intro: le_less_trans)
  then have "e < binade x + 1" by (simp only: p2_less_iff)
  then show "e \<le> binade x" by simp
qed






























section \<open>Properties of the restart policy\<close>














section \<open>Properties of substring search\<close>

lemma indexOfFrom_ge: "indexOfFrom s kw i \<noteq> - 1 \<Longrightarrow> int i \<le> indexOfFrom s kw i"
  by (induction s kw i rule: indexOfFrom.induct) (auto split: if_splits)

lemma indexOfFrom_found_iff: "indexOfFrom s kw i \<noteq> - 1 \<longleftrightarrow> sublist kw s"
proof (induction s kw i rule: indexOfFrom.induct)
  case (1 kw i)
  show ?case by simp
next
  case (2 c cs kw i)
  show ?case
  proof (cases "prefix kw (c # cs)")
    case True
    then show ?thesis by (auto simp: prefix_imp_sublist)
  next
    case False
    then show ?thesis using 2 by (simp add: sublist_Cons_right)
  qed
qed

lemma indexOf_found_iff: "indexOf s kw \<noteq> - 1 \<longleftrightarrow> sublist kw s"
  by (simp add: indexOf_def indexOfFrom_found_iff)

lemma toLowerCase_append: "toLowerCase (xs @ ys) = toLowerCase xs @ toLowerCase ys"
  by (simp add: toLowerCase_def)

lemma sublist_map_iff:
  "sublist kw (map f s) \<longleftrightarrow> (\<exists>pre mid post. s = pre @ mid @ post \<and> map f mid = kw)"
proof
  assume "sublist kw (map f s)"
  then obtain ps ss where "map f s = ps @ kw @ ss" by (auto simp: sublist_def)
  then obtain pre rest where a: "s = pre @ rest" "ps = map f pre" "kw @ ss = map f rest"
    unfolding map_eq_append_conv by blast
  from a(3) obtain mid post where "rest = mid @ post" "kw = map f mid" "ss = map f post"
    unfolding append_eq_map_conv by blast
  with a show "\<exists>pre mid post. s = pre @ mid @ post \<and> map f mid = kw" by blast
next
  assume "\<exists>pre mid post. s = pre @ mid @ post \<and> map f mid = kw"
  then obtain pre mid post where "s = pre @ mid @ post" "map f mid = kw" by blast
  then have "map f s = map f pre @ kw @ map f post" by simp
  then show "sublist kw (map f s)" unfolding sublist_def by blast
qed

lemma toLowerCase_ERROR: "toLowerCase ''ERROR: '' = ''error: ''"
  by code_simp

lemma has_error_keyword_stderr: "has_error_keyword (''ERROR: '' @ line)"
proof -
  have "sublist ''error'' (''error: '' @ toLowerCase line)"
    by (rule prefix_imp_sublist) simp
  then have "indexOf (toLowerCase (''ERROR: '' @ line)) ''error'' \<noteq> - 1"
    by (simp only: indexOf_found_iff toLowerCase_append toLowerCase_ERROR)
  then show ?thesis
    by (simp add: has_error_keyword_def ERROR_KEYWORDS_def Let_def)
qed

section \<open>Properties of health evaluation\<close>

lemma computeHealth_running:
  assumes "process st = Some p" "truthy_pid (pid p)" "alive env (the (pid p))"
  shows "isRunning (fst (computeHealth cfg env st))"
    and "hasErrors (fst (computeHealth cfg env st))
           = list_ex has_error_keyword (getRecent 50 (logs st))"
    and "uptime (fst (computeHealth cfg env st)) = extractUptimeFromLogs (logs st)"
    and "uptimeIncreasing (fst (computeHealth cfg env st))
           = (extractUptimeFromLogs (logs st) > lastUptime st)"
    and "healthCache (fst (snd (computeHealth cfg env st)))
           = Some \<lparr>metrics = fst (computeHealth cfg env st), timestamp = now_store env\<rparr>"
    and "snd (snd (computeHealth cfg env st)) \<noteq> []"
    and "Probe (the (pid p)) \<in> set (snd (snd (computeHealth cfg env st)))"
    and "ScanLogs \<in> set (snd (snd (computeHealth cfg env st)))"
  using assms by (simp_all add: computeHealth_def Let_def)

lemma computeHealth_no_kill: "Kill c s \<notin> set (snd (snd (computeHealth cfg env st)))"
  by (simp add: computeHealth_def Let_def split: option.splits)

lemma checkBinaryHealth_no_kill: "Kill c s \<notin> set (snd (snd (checkBinaryHealth cfg env st)))"
  by (simp add: checkBinaryHealth_def computeHealth_no_kill)

text \<open>
  C4. On the metrics that \<open>checkBinaryHealth\<close> returns, cached or freshly computed, the
  \<open>health\<close> hook returns the verdict: running, no recent errors, and uptime increasing or
  positive. The same value is stored in \<open>isHealthy\<close>.
\<close>

theorem health_returns_verdict:
  "fst (health cfg env st) = verdict (fst (checkBinaryHealth cfg env st))
   \<and> isHealthy (fst (snd (health cfg env st))) = verdict (fst (checkBinaryHealth cfg env st))"
  by (simp add: health_def verdict_def Let_def split: prod.splits)


lemma wf_getRecent_push:
  assumes "wf b" "0 < k"
  shows "\<exists>ys. getRecent k (push x b) = ys @ [x]"
proof -
  have "\<exists>zs. getAll (push x b) = zs @ [x]"
  proof (cases "sizeCB b < capacity b")
    case True
    with getAll_push_notfull[OF assms(1)] show ?thesis by blast
  next
    case False
    with assms(1) have "sizeCB b = capacity b" by (auto simp: wf_def)
    with getAll_push_full[OF assms(1)] show ?thesis by blast
  qed
  then obtain zs where zs: "getAll (push x b) = zs @ [x]" ..
  have "getRecent k (push x b) = drop (length zs + 1 - nat k) (zs @ [x])"
    by (simp add: getRecent_def slice_from_neg[OF assms(2)] zs)
  also have "\<dots> = drop (length zs + 1 - nat k) zs @ [x]"
    using assms(2) by simp
  finally show ?thesis by blast
qed

text \<open>
  C5. The \<open>stderr\<close> handler pushes the line with the prefix "ERROR: ", and on a buffer of
  positive capacity that line is then the newest of the recent lines. Whenever a line with
  this prefix is among the 50 most recent lines, whatever follows the prefix, an evaluation
  that is not served from the cache and finds the child running reports \<open>hasErrors\<close>, and
  the \<open>health\<close> hook returns false.
\<close>

theorem stderr_line_fails_health:
  "logs (fst (stderr_line child line st)) = push (''ERROR: '' @ line) (logs st)
   \<and> (wf (logs st) \<longrightarrow>
        (\<exists>older. getRecent 50 (logs (fst (stderr_line child line st)))
                   = older @ [''ERROR: '' @ line]))
   \<and> ((''ERROR: '' @ line) \<in> set (getRecent 50 (logs st'))
        \<and> \<not> cache_valid cfg env st'
        \<and> process st' = Some p \<and> truthy_pid (pid p) \<and> alive env (the (pid p))
        \<longrightarrow> hasErrors (fst (checkBinaryHealth cfg env st'))
            \<and> \<not> fst (health cfg env st'))"
proof (intro conjI impI)
  show "logs (fst (stderr_line child line st)) = push (''ERROR: '' @ line) (logs st)"
    by (simp add: stderr_line_def)
next
  assume "wf (logs st)"
  from wf_getRecent_push[OF this, of 50 "''ERROR: '' @ line"]
  show "\<exists>older. getRecent 50 (logs (fst (stderr_line child line st)))
                   = older @ [''ERROR: '' @ line]"
    by (simp add: stderr_line_def)
next
  assume a: "(''ERROR: '' @ line) \<in> set (getRecent 50 (logs st'))
        \<and> \<not> cache_valid cfg env st'
        \<and> process st' = Some p \<and> truthy_pid (pid p) \<and> alive env (the (pid p))"
  then have r: "process st' = Some p" "truthy_pid (pid p)" "alive env (the (pid p))" by simp_all
  have "list_ex has_error_keyword (getRecent 50 (logs st'))"
    unfolding list_ex_iff using a has_error_keyword_stderr by blast
  then have "hasErrors (fst (computeHealth cfg env st'))"
    by (simp add: computeHealth_running(2)[OF r])
  with a show "hasErrors (fst (checkBinaryHealth cfg env st'))"
    by (simp add: checkBinaryHealth_def)
  then show "\<not> fst (health cfg env st')"
    by (cases "checkBinaryHealth cfg env st'") (simp add: health_def Let_def)
qed


theorem stderr_line_fails_health_witness:
  "hasErrors (fst (checkBinaryHealth defaultConfig (healthEnvAt 6000 True)
      (fst (stderr_line \<lparr>cid = 0, pid = Some 4242\<rparr> ''disk full''
         ((processState defaultConfig)\<lparr>process := Some \<lparr>cid = 0, pid = Some 4242\<rparr>\<rparr>)))))
   \<and> \<not> fst (health defaultConfig (healthEnvAt 6000 True)
      (fst (stderr_line \<lparr>cid = 0, pid = Some 4242\<rparr> ''disk full''
         ((processState defaultConfig)\<lparr>process := Some \<lparr>cid = 0, pid = Some 4242\<rparr>\<rparr>))))"
proof -
  let ?c = "\<lparr>cid = 0, pid = Some 4242\<rparr>"
  let ?st = "(processState defaultConfig)\<lparr>process := Some ?c\<rparr>"
  let ?st' = "fst (stderr_line ?c ''disk full'' ?st)"
  let ?env = "healthEnvAt 6000 True"
  note t = stderr_line_fails_health[of ?c "''disk full''" ?st ?st' defaultConfig ?env ?c]
  have w: "wf (logs ?st)"
    by (simp add: processState_def defaultConfig_def wf_new)
  from t w obtain older where
    g: "getRecent 50 (logs ?st') = older @ [''ERROR: '' @ ''disk full'']" by blast
  have h: "(''ERROR: '' @ ''disk full'') \<in> set (getRecent 50 (logs ?st'))
        \<and> \<not> cache_valid defaultConfig ?env ?st'
        \<and> process ?st' = Some ?c \<and> truthy_pid (pid ?c) \<and> alive ?env (the (pid ?c))"
    unfolding g
    by (simp add: stderr_line_def cache_valid_def processState_def truthy_pid_def healthEnvAt_def)
  from t h show ?thesis by blast
qed

text \<open>
  C9. The \<open>stderr\<close> handler sends SIGTERM to the child whose stream it reads exactly when
  the line contains, somewhere, a piece that lower-cases to "invalid" and a piece that
  lower-cases to "secret". The signal is among the effects of ingesting that very line. The
  \<open>stdout\<close> handler sends no signal, and neither does health evaluation: neither
  \<open>checkBinaryHealth\<close> nor the \<open>health\<close> hook.
\<close>

theorem sigterm_iff_invalid_secret:
  "(Kill (cid child) SIGTERM \<in> set (snd (stderr_line child line st)))
     = ((\<exists>pre mid post. line = pre @ mid @ post \<and> toLowerCase mid = ''invalid'')
        \<and> (\<exists>pre mid post. line = pre @ mid @ post \<and> toLowerCase mid = ''secret''))
   \<and> (Kill c s \<in> set (snd (stderr_line child line st))) = (c = cid child \<and> s = SIGTERM \<and> invalid_secret line)
   \<and> Kill c s \<notin> set (snd (stdout_line line elapsed st))
   \<and> Kill c s \<notin> set (snd (snd (checkBinaryHealth cfg env st)))
   \<and> Kill c s \<notin> set (snd (snd (health cfg env st)))"
proof -
  have i: "invalid_secret line
     = ((\<exists>pre mid post. line = pre @ mid @ post \<and> toLowerCase mid = ''invalid'')
        \<and> (\<exists>pre mid post. line = pre @ mid @ post \<and> toLowerCase mid = ''secret''))"
    unfolding invalid_secret_def Let_def indexOf_found_iff
    unfolding toLowerCase_def sublist_map_iff ..
  have k: "(Kill c' s' \<in> set (snd (stderr_line child line st)))
        = (c' = cid child \<and> s' = SIGTERM \<and> invalid_secret line)" for c' s'
    by (auto simp: stderr_line_def)
  have h: "Kill c s \<notin> set (snd (snd (health cfg env st)))"
    using checkBinaryHealth_no_kill[of c s cfg env st]
    by (cases "checkBinaryHealth cfg env st") (simp add: health_def Let_def)
  show ?thesis
    using k[of "cid child" SIGTERM] k[of c s] i h checkBinaryHealth_no_kill[of c s cfg env st]
    by (simp add: stdout_line_def)
qed

theorem sigterm_iff_invalid_secret_witness:
  "Kill 7 SIGTERM \<in> set (snd (stderr_line \<lparr>cid = 7, pid = Some 4242\<rparr>
      ''Error: Invalid SECRET provided'' (processState defaultConfig)))
   \<and> Kill 7 SIGTERM \<notin> set (snd (stderr_line \<lparr>cid = 7, pid = Some 4242\<rparr>
      ''Error: invalid key'' (processState defaultConfig)))"
proof -
  let ?c = "\<lparr>cid = 7, pid = Some 4242\<rparr>"
  have a: "invalid_secret ''Error: Invalid SECRET provided''" by code_simp
  have b: "\<not> invalid_secret ''Error: invalid key''" by code_simp
  from sigterm_iff_invalid_secret[where child = ?c and c = 7 and s = SIGTERM
      and line = "''Error: Invalid SECRET provided''" and st = "processState defaultConfig",
      THEN conjunct2, THEN conjunct1] a
  have "Kill 7 SIGTERM \<in> set (snd (stderr_line ?c
      ''Error: Invalid SECRET provided'' (processState defaultConfig)))" by simp
  moreover from sigterm_iff_invalid_secret[where child = ?c and c = 7 and s = SIGTERM
      and line = "''Error: invalid key''" and st = "processState defaultConfig",
      THEN conjunct2, THEN conjunct1] b
  have "Kill 7 SIGTERM \<notin> set (snd (stderr_line ?c
      ''Error: invalid key'' (processState defaultConfig)))" by simp
  ultimately show ?thesis by simp
qed

section \<open>Properties of the health cache\<close>

lemma computeHealth_preserves:
  "process (fst (snd (computeHealth cfg env st))) = process st"
  "logs (fst (snd (computeHealth cfg env st))) = logs st"
  "startTime (fst (snd (computeHealth cfg env st))) = startTime st"
  "restartCount (fst (snd (computeHealth cfg env st))) = restartCount st"
  by (simp_all add: computeHealth_def Let_def split: option.splits)

lemma computeHealth_not_running:
  assumes "process st = Some p" "truthy_pid (pid p)" "\<not> alive env (the (pid p))"
  shows "computeHealth cfg env st
           = (noMetrics, st, [Probe (the (pid p)), Log LogWarn ''Binary process is not running''])"
  using assms by (simp add: computeHealth_def Let_def)

lemma line_handlers_keep_cache:
  "healthCache (fst (stdout_line line elapsed st)) = healthCache st"
  "healthCache (fst (stderr_line child line st)) = healthCache st"
  "process (fst (stdout_line line elapsed st)) = process st"
  "process (fst (stderr_line child line st)) = process st"
  by (simp_all add: stdout_line_def stderr_line_def)

lemma checkBinaryHealth_hit:
  assumes "healthCache st = Some entry" "now_check env - timestamp entry < HEALTH_CACHE_TTL cfg"
  shows "checkBinaryHealth cfg env st = (metrics entry, st, [])"
  using assms by (simp add: checkBinaryHealth_def cache_valid_def)

lemma checkBinaryHealth_miss:
  assumes "healthCache st = None
           \<or> (\<exists>entry. healthCache st = Some entry
                 \<and> HEALTH_CACHE_TTL cfg \<le> now_check env - timestamp entry)"
  shows "checkBinaryHealth cfg env st = computeHealth cfg env st"
  using assms by (auto simp: checkBinaryHealth_def cache_valid_def)


lemma computeHealth_probes:
  assumes "process st = Some p" "truthy_pid (pid p)"
  shows "Probe (the (pid p)) \<in> set (snd (snd (computeHealth cfg env st)))"
  using assms by (simp add: computeHealth_def Let_def)

lemma computeHealth_stores_only_running:
  "\<not> isRunning (fst (computeHealth cfg env st)) \<Longrightarrow> fst (snd (computeHealth cfg env st)) = st"
  by (simp add: computeHealth_def Let_def noMetrics_def split: option.splits if_splits)

text \<open>
  C3, as the claim states it, fails on the code. The snapshot's age is counted from its
  capture, not from the previous call: with the snapshot captured at time 0 and a lifetime of
  500, the call at 400 is served from it (uptime 5, no probe), a line with a new uptime
  arrives, and the call at 600, only 200 later and with no respawn between, probes the child
  again and returns uptime 9. And an evaluation that finds the child not running stores no
  snapshot: two calls 1 apart both probe.
\<close>

theorem checkBinaryHealth_cache_counterexample:
  "uptime (fst (evalAt 400 True (fst (snd (evalAt 0 True (sampleState [''uptime: 5 seconds''])))))) = 5
   \<and> snd (snd (evalAt 400 True (fst (snd (evalAt 0 True (sampleState [''uptime: 5 seconds''])))))) = []
   \<and> uptime (fst (evalAt 600 True (fst (stdout_line ''uptime: 9 seconds'' 0 (fst (snd (evalAt 400 True (fst (snd (evalAt 0 True (sampleState [''uptime: 5 seconds'']))))))))))) = 9
   \<and> Probe 4242 \<in> set (snd (snd (evalAt 600 True (fst (stdout_line ''uptime: 9 seconds'' 0 (fst (snd (evalAt 400 True (fst (snd (evalAt 0 True (sampleState [''uptime: 5 seconds'']))))))))))))
   \<and> (600::int) - 400 < HEALTH_CACHE_TTL defaultConfig
   \<and> Probe 4242 \<in> set (snd (snd (evalAt 1001 False (fst (snd (evalAt 1000 False (sampleState [])))))))"
proof -
  let ?cfg = defaultConfig
  let ?p = sampleChild
  let ?s0 = "sampleState [''uptime: 5 seconds'']"
  let ?c0 = "evalAt 0 True ?s0"
  let ?s1 = "fst (snd ?c0)"
  let ?c1 = "evalAt 400 True ?s1"
  let ?s3 = "fst (stdout_line ''uptime: 9 seconds'' 0 (fst (snd ?c1)))"
  let ?c2 = "evalAt 600 True ?s3"
  have r0: "process (sampleState ls) = Some ?p" "truthy_pid (pid ?p)"
      "alive (healthEnvAt t a) (the (pid ?p)) = a" for t a ls
    by (simp_all add: truthy_pid_def healthEnvAt_def sampleState_def sampleChild_def)
  have q: "the (pid ?p) = 4242" "alive (healthEnvAt t a) n = a" for t a n
    by (simp_all add: sampleChild_def healthEnvAt_def)
  have nocache: "healthCache (sampleState ls) = None" for ls
    by (simp add: sampleState_def processState_def)
  have u5: "extractUptimeFromLogs (logs ?s0) = 5"
    unfolding sampleState_def processState_def defaultConfig_def by code_simp
  have c0: "?c0 = computeHealth ?cfg (healthEnvAt 0 True) ?s0"
    unfolding evalAt_def by (rule checkBinaryHealth_miss) (simp add: nocache)
  have cache1: "healthCache ?s1 = Some \<lparr>metrics = fst ?c0, timestamp = 0\<rparr>"
    unfolding c0 using computeHealth_running(5)[where st = ?s0 and p = ?p and env = "healthEnvAt 0 True" and cfg = ?cfg]
    by (simp add: r0 healthEnvAt_def)
  have c1: "?c1 = (fst ?c0, ?s1, [])"
    unfolding evalAt_def[of 400]
    using checkBinaryHealth_hit[OF cache1, where env = "healthEnvAt 400 True" and cfg = ?cfg]
    by (simp add: healthEnvAt_def defaultConfig_def)
  have g1: "uptime (fst ?c1) = 5"
    unfolding c1 using computeHealth_running(3)[where st = ?s0 and p = ?p and env = "healthEnvAt 0 True" and cfg = ?cfg] u5
    by (simp add: c0 r0)
  have g2: "snd (snd ?c1) = []" by (simp add: c1)
  have s3_cache: "healthCache ?s3 = Some \<lparr>metrics = fst ?c0, timestamp = 0\<rparr>"
    unfolding c1 by (simp add: line_handlers_keep_cache cache1)
  have c2: "?c2 = computeHealth ?cfg (healthEnvAt 600 True) ?s3"
    unfolding evalAt_def[of 600]
    by (rule checkBinaryHealth_miss) (simp add: s3_cache healthEnvAt_def defaultConfig_def)
  have r3: "process ?s3 = Some ?p"
    unfolding c1 by (simp add: line_handlers_keep_cache c0 computeHealth_preserves r0)
  have l3: "logs ?s3 = push ''uptime: 9 seconds'' (logs ?s0)"
    unfolding c1 by (simp add: stdout_line_def c0 computeHealth_preserves)
  have u9: "extractUptimeFromLogs (push ''uptime: 9 seconds'' (logs ?s0)) = 9"
    unfolding sampleState_def processState_def defaultConfig_def by code_simp
  have g3: "uptime (fst ?c2) = 9"
    unfolding c2 using computeHealth_running(3)[where st = ?s3 and p = ?p and env = "healthEnvAt 600 True" and cfg = ?cfg] u9 l3 r3
    by (simp add: r0)
  have g4: "Probe 4242 \<in> set (snd (snd ?c2))"
    unfolding c2 using computeHealth_running(7)[where st = ?s3 and p = ?p and env = "healthEnvAt 600 True" and cfg = ?cfg] r3
    by (simp add: r0 q)
  have g5: "(600::int) - 400 < HEALTH_CACHE_TTL defaultConfig" by (simp add: defaultConfig_def)
  let ?sB = "sampleState []"
  have mB: "evalAt t False ?sB
      = (noMetrics, ?sB, [Probe 4242, Log LogWarn ''Binary process is not running''])" for t
  proof -
    have "evalAt t False ?sB = computeHealth ?cfg (healthEnvAt t False) ?sB"
      unfolding evalAt_def by (rule checkBinaryHealth_miss) (simp add: nocache)
    then show ?thesis
      using computeHealth_not_running[where st = ?sB and p = ?p and env = "healthEnvAt t False" and cfg = ?cfg]
      by (simp add: r0 q)
  qed
  have g6: "Probe 4242 \<in> set (snd (snd (evalAt 1001 False (fst (snd (evalAt 1000 False (?sB)))))))"
    by (simp add: mB)
  from g1 g2 g3 g4 g5 g6 show ?thesis by (intro conjI)
qed


text \<open>
  C3, amended. A call is served from the snapshot exactly when its clock is less than the
  cache lifetime past the snapshot's capture; it then returns the stored metrics, changes no
  state and makes no probe and no log scan. With no snapshot, or one that is older, the call
  recomputes, probing whenever the child has a pid. An evaluation that does not find the
  child running stores nothing. So when the first of two calls is not served from the cache
  and finds the child running, and the second starts less than the cache lifetime after the
  first, with the snapshot left in place between them (log lines leave it in place; start,
  stop and a respawn clear it), the second returns the metrics of the first and makes no
  probe and no scan.
\<close>

theorem checkBinaryHealth_cache:
  "(healthCache st = Some entry \<and> now_check env - timestamp entry < HEALTH_CACHE_TTL cfg
      \<longrightarrow> checkBinaryHealth cfg env st = (metrics entry, st, []))
   \<and> (healthCache st = None
        \<or> (\<exists>e. healthCache st = Some e \<and> HEALTH_CACHE_TTL cfg \<le> now_check env - timestamp e)
      \<longrightarrow> checkBinaryHealth cfg env st = computeHealth cfg env st
          \<and> (\<forall>q. process st = Some q \<and> truthy_pid (pid q)
                \<longrightarrow> Probe (the (pid q)) \<in> set (snd (snd (checkBinaryHealth cfg env st)))))
   \<and> (\<not> isRunning (fst (computeHealth cfg env st))
      \<longrightarrow> fst (snd (computeHealth cfg env st)) = st)
   \<and> (\<not> cache_valid cfg envA st
        \<and> process st = Some p \<and> truthy_pid (pid p) \<and> alive envA (the (pid p))
        \<and> healthCache stB = healthCache (fst (snd (checkBinaryHealth cfg envA st)))
        \<and> now_check envA \<le> now_store envA
        \<and> now_check envB - now_check envA < HEALTH_CACHE_TTL cfg
      \<longrightarrow> checkBinaryHealth cfg envB stB = (fst (checkBinaryHealth cfg envA st), stB, []))
   \<and> healthCache (fst (stdout_line line elapsed st)) = healthCache st
   \<and> healthCache (fst (stderr_line child line st)) = healthCache st"
proof (intro conjI impI)
  assume "healthCache st = Some entry \<and> now_check env - timestamp entry < HEALTH_CACHE_TTL cfg"
  then show "checkBinaryHealth cfg env st = (metrics entry, st, [])"
    by (simp add: checkBinaryHealth_hit)
next
  assume a: "healthCache st = None
        \<or> (\<exists>e. healthCache st = Some e \<and> HEALTH_CACHE_TTL cfg \<le> now_check env - timestamp e)"
  then show m: "checkBinaryHealth cfg env st = computeHealth cfg env st"
    by (rule checkBinaryHealth_miss)
  show "\<forall>q. process st = Some q \<and> truthy_pid (pid q)
          \<longrightarrow> Probe (the (pid q)) \<in> set (snd (snd (checkBinaryHealth cfg env st)))"
    unfolding m using computeHealth_probes by blast
next
  assume "\<not> isRunning (fst (computeHealth cfg env st))"
  then show "fst (snd (computeHealth cfg env st)) = st"
    by (rule computeHealth_stores_only_running)
next
  assume a: "\<not> cache_valid cfg envA st
        \<and> process st = Some p \<and> truthy_pid (pid p) \<and> alive envA (the (pid p))
        \<and> healthCache stB = healthCache (fst (snd (checkBinaryHealth cfg envA st)))
        \<and> now_check envA \<le> now_store envA
        \<and> now_check envB - now_check envA < HEALTH_CACHE_TTL cfg"
  then have r: "process st = Some p" "truthy_pid (pid p)" "alive envA (the (pid p))" by simp_all
  from a have c: "checkBinaryHealth cfg envA st = computeHealth cfg envA st"
    by (simp add: checkBinaryHealth_def)
  have "healthCache stB = Some \<lparr>metrics = fst (computeHealth cfg envA st), timestamp = now_store envA\<rparr>"
    using a computeHealth_running(5)[OF r, of cfg] by (simp add: c)
  moreover have "now_check envB - now_store envA < HEALTH_CACHE_TTL cfg" using a by linarith
  ultimately show "checkBinaryHealth cfg envB stB = (fst (checkBinaryHealth cfg envA st), stB, [])"
    using checkBinaryHealth_hit[of stB _ envB cfg] by (simp add: c)
next
  show "healthCache (fst (stdout_line line elapsed st)) = healthCache st"
    by (rule line_handlers_keep_cache)
  show "healthCache (fst (stderr_line child line st)) = healthCache st"
    by (rule line_handlers_keep_cache)
qed

theorem checkBinaryHealth_cache_witness:
  "evalAt 400 True (fst (stdout_line ''uptime: 9 seconds'' 0 (fst (snd (evalAt 0 True (sampleState [''uptime: 5 seconds'']))))))
     = (fst (evalAt 0 True (sampleState [''uptime: 5 seconds''])),
        fst (stdout_line ''uptime: 9 seconds'' 0 (fst (snd (evalAt 0 True (sampleState [''uptime: 5 seconds'']))))),
        [])
   \<and> evalAt 0 True (sampleState [''uptime: 5 seconds''])
       = computeHealth defaultConfig (healthEnvAt 0 True) (sampleState [''uptime: 5 seconds''])
   \<and> Probe 4242 \<in> set (snd (snd (evalAt 0 True (sampleState [''uptime: 5 seconds'']))))"
proof -
  let ?st = "sampleState [''uptime: 5 seconds'']"
  let ?e1 = "healthEnvAt 0 True"
  let ?e2 = "healthEnvAt 400 True"
  let ?st2 = "fst (stdout_line ''uptime: 9 seconds'' 0 (fst (snd (evalAt 0 True ?st))))"
  note t = checkBinaryHealth_cache[where cfg = defaultConfig and st = ?st and env = ?e1
      and envA = ?e1 and envB = ?e2 and stB = ?st2 and p = sampleChild]
  have n: "healthCache ?st = None" by (simp add: sampleState_def processState_def)
  have h4: "\<not> cache_valid defaultConfig ?e1 ?st
        \<and> process ?st = Some sampleChild \<and> truthy_pid (pid sampleChild)
        \<and> alive ?e1 (the (pid sampleChild))
        \<and> healthCache ?st2 = healthCache (fst (snd (checkBinaryHealth defaultConfig ?e1 ?st)))
        \<and> now_check ?e1 \<le> now_store ?e1
        \<and> now_check ?e2 - now_check ?e1 < HEALTH_CACHE_TTL defaultConfig"
    by (simp add: cache_valid_def n line_handlers_keep_cache evalAt_def)
       (simp add: sampleState_def sampleChild_def truthy_pid_def healthEnvAt_def defaultConfig_def)
  have q: "process ?st = Some sampleChild \<and> truthy_pid (pid sampleChild)"
    by (simp add: sampleState_def sampleChild_def truthy_pid_def)
  from t h4 have "checkBinaryHealth defaultConfig ?e2 ?st2
      = (fst (checkBinaryHealth defaultConfig ?e1 ?st), ?st2, [])" by blast
  moreover from t n have "checkBinaryHealth defaultConfig ?e1 ?st = computeHealth defaultConfig ?e1 ?st"
    by blast
  moreover from t n q have "Probe (the (pid sampleChild))
      \<in> set (snd (snd (checkBinaryHealth defaultConfig ?e1 ?st)))" by blast
  ultimately show ?thesis by (simp add: evalAt_def sampleChild_def)
qed

section \<open>Properties of shutdown\<close>


lemma poll_rounds_Suc: "poll_rounds q (Suc n) = Probe q # Sleep 100 # poll_rounds q n"
  by (simp add: poll_rounds_def)

lemma stop_wait_shape:
  "\<exists>n. snd (stop_wait env T p e k)
          = poll_rounds (the p) n
            @ (if fst (stop_wait env T p e k) \<and> truthy_pid p then [Probe (the p)] else [])
      \<and> (\<forall>i<n. poll_alive env (k + i) \<and> e + sleeps_take env k i < T)
      \<and> (fst (stop_wait env T p e k)
           \<longrightarrow> e + sleeps_take env k n < T \<and> (truthy_pid p \<longrightarrow> \<not> poll_alive env (k + n)))
      \<and> (\<not> fst (stop_wait env T p e k) \<longrightarrow> T \<le> e + sleeps_take env k n)"
proof (induction env T p e k rule: stop_wait.induct)
  case (1 env T p e k)
  show ?case
  proof (cases "e < T \<and> truthy_pid p \<and> poll_alive env k")
    case False
    then have "snd (stop_wait env T p e k)
          = poll_rounds (the p) 0
            @ (if fst (stop_wait env T p e k) \<and> truthy_pid p then [Probe (the p)] else [])
      \<and> (\<forall>i<(0::nat). poll_alive env (k + i) \<and> e + sleeps_take env k i < T)
      \<and> (fst (stop_wait env T p e k)
           \<longrightarrow> e + sleeps_take env k 0 < T \<and> (truthy_pid p \<longrightarrow> \<not> poll_alive env (k + 0)))
      \<and> (\<not> fst (stop_wait env T p e k) \<longrightarrow> T \<le> e + sleeps_take env k 0)"
      by (subst (1 2 3 4) stop_wait.simps) (auto simp: poll_rounds_def)
    then show ?thesis by blast
  next
    case True
    let ?e' = "e + 100 + int (sleep_lag env k)"
    let ?r = "stop_wait env T p ?e' (Suc k)"
    from True have eq: "stop_wait env T p e k = (fst ?r, Probe (the p) # Sleep 100 # snd ?r)"
      by (subst stop_wait.simps) (simp add: case_prod_beta)
    from True "1.IH" obtain n where n:
      "snd ?r = poll_rounds (the p) n @ (if fst ?r \<and> truthy_pid p then [Probe (the p)] else [])"
      "\<forall>i<n. poll_alive env (Suc k + i) \<and> ?e' + sleeps_take env (Suc k) i < T"
      "fst ?r \<longrightarrow> ?e' + sleeps_take env (Suc k) n < T \<and> (truthy_pid p \<longrightarrow> \<not> poll_alive env (Suc k + n))"
      "\<not> fst ?r \<longrightarrow> T \<le> ?e' + sleeps_take env (Suc k) n"
      by auto
    have a: "\<forall>i<Suc n. poll_alive env (k + i) \<and> e + sleeps_take env k i < T"
    proof (intro allI impI)
      fix i assume "i < Suc n"
      show "poll_alive env (k + i) \<and> e + sleeps_take env k i < T"
      proof (cases i)
        case 0
        then show ?thesis using True by simp
      next
        case (Suc j)
        with \<open>i < Suc n\<close> n(2) show ?thesis by (auto simp: algebra_simps)
      qed
    qed
    have "snd (stop_wait env T p e k)
          = poll_rounds (the p) (Suc n)
            @ (if fst (stop_wait env T p e k) \<and> truthy_pid p then [Probe (the p)] else [])
      \<and> (\<forall>i<Suc n. poll_alive env (k + i) \<and> e + sleeps_take env k i < T)
      \<and> (fst (stop_wait env T p e k)
           \<longrightarrow> e + sleeps_take env k (Suc n) < T \<and> (truthy_pid p \<longrightarrow> \<not> poll_alive env (k + Suc n)))
      \<and> (\<not> fst (stop_wait env T p e k) \<longrightarrow> T \<le> e + sleeps_take env k (Suc n))"
      unfolding eq using n(1,3,4) a by (simp add: poll_rounds_Suc algebra_simps)
    then show ?thesis by blast
  qed
qed








section \<open>Properties of restarts\<close>

lemma timeouts_simps:
  "timeouts [] = 0"
  "timeouts (xs @ ys) = timeouts xs + timeouts ys"
  "timeouts (SetTimeout d # es) = Suc (timeouts es)"
  "timeouts (Log l m # es) = timeouts es"
  "timeouts (Probe q # es) = timeouts es"
  "timeouts (Sleep t # es) = timeouts es"
  "timeouts (Kill c s # es) = timeouts es"
  "timeouts (Unlink f # es) = timeouts es"
  "timeouts (SpawnKey # es) = timeouts es"
  "timeouts (SpawnBinary c f # es) = timeouts es"
  "timeouts (ScanLogs # es) = timeouts es"
  by (simp_all add: timeouts_def)

lemma restart_attempts_emit:
  "restart_attempts (emit (w, effs)) = restart_attempts w + timeouts effs"
  by (simp add: restart_attempts_def emit_def timeouts_def)

lemma emit_fields:
  "ps (emit r) = ps (fst r)"
  "exitObservers (emit r) = exitObservers (fst r)"
  "timers (emit r) = timers (fst r)"
  by (simp_all add: emit_def)

lemma on_state_fields:
  "ps (on_state w r) = fst r"
  "exitObservers (on_state w r) = exitObservers w"
  "timers (on_state w r) = timers w"
  "restart_attempts (on_state w r) = restart_attempts w + timeouts (snd r)"
  by (simp_all add: on_state_def emit_def restart_attempts_def timeouts_def)

lemma startBinaryProcess_timeouts:
  "timeouts (snd (startBinaryProcess bp uw cfg env c)) = 0"
  by (simp add: startBinaryProcess_def Let_def timeouts_simps)

lemma start_props:
  "restartCount (ps (fst (snd (start cfg a now env w)))) = 0"
  "length (exitObservers (fst (snd (start cfg a now env w)))) \<le> Suc (length (exitObservers w))"
  "timeouts (snd (snd (start cfg a now env w))) = 0"
  "trace (fst (snd (start cfg a now env w))) = trace w"
proof -
  let ?bp = "(case binaryWrapperPath w of
                Some path \<Rightarrow> if (AUTO_KEY_INJECTION cfg \<or> a) \<and> path \<noteq> [] then path else BINARY_PATH cfg
              | None \<Rightarrow> BINARY_PATH cfg)"
  let ?r = "startBinaryProcess ?bp (AUTO_KEY_INJECTION cfg \<or> a) cfg env (nextCid w)"
  have t: "timeouts (snd ?r) = 0" by (rule startBinaryProcess_timeouts)
  obtain res effs where r: "?r = (res, effs)" by (cases ?r)
  with t have te: "timeouts effs = 0" by simp
  show "restartCount (ps (fst (snd (start cfg a now env w)))) = 0"
    by (cases res) (simp_all add: start_def Let_def r monitorProcessLogs_def)
  show "length (exitObservers (fst (snd (start cfg a now env w)))) \<le> Suc (length (exitObservers w))"
    by (cases res) (simp_all add: start_def Let_def r monitorProcessLogs_def)
  show "timeouts (snd (snd (start cfg a now env w))) = 0"
    using te by (cases res) (simp_all add: start_def Let_def r timeouts_simps)
  show "trace (fst (snd (start cfg a now env w))) = trace w"
    by (cases res) (simp_all add: start_def Let_def r monitorProcessLogs_def)
qed

lemma exit_listener_props:
  "restartCount (ps (fst (exit_listener cfg cap rnd now w)))
     = restartCount (ps w) + timeouts (snd (exit_listener cfg cap rnd now w))"
  "timeouts (snd (exit_listener cfg cap rnd now w)) \<le> 1"
  "exitObservers (fst (exit_listener cfg cap rnd now w)) = exitObservers w"
  "trace (fst (exit_listener cfg cap rnd now w)) = trace w"
  "int (restartCount (ps w)) < MAX_RESTART_ATTEMPTS cfg \<Longrightarrow>
     restartCount (ps (fst (exit_listener cfg cap rnd now w))) = Suc (restartCount (ps w))"
  "\<not> int (restartCount (ps w)) < MAX_RESTART_ATTEMPTS cfg \<Longrightarrow>
     restartCount (ps (fst (exit_listener cfg cap rnd now w))) = restartCount (ps w)
     \<and> timers (fst (exit_listener cfg cap rnd now w)) = timers w"
  by (simp_all add: exit_listener_def Let_def timeouts_simps)

lemma restart_callback_props:
  "restartCount (ps (fst (restart_callback cfg cap env now w))) = restartCount (ps w)"
  "exitObservers (fst (restart_callback cfg cap env now w)) = exitObservers w"
  "timeouts (snd (restart_callback cfg cap env now w)) = 0"
  "trace (fst (restart_callback cfg cap env now w)) = trace w"
  "timers (fst (restart_callback cfg cap env now w)) = timers w"
proof -
  let ?r = "startBinaryProcess (fst cap) (snd cap) cfg env (nextCid w)"
  have t: "timeouts (snd ?r) = 0" by (rule startBinaryProcess_timeouts)
  obtain res effs where r: "?r = (res, effs)" by (cases ?r)
  with t have te: "timeouts effs = 0" by simp
  show "restartCount (ps (fst (restart_callback cfg cap env now w))) = restartCount (ps w)"
    by (cases res) (simp_all add: restart_callback_def Let_def r monitorProcessLogs_def)
  show "exitObservers (fst (restart_callback cfg cap env now w)) = exitObservers w"
    by (cases res) (simp_all add: restart_callback_def Let_def r monitorProcessLogs_def)
  show "timeouts (snd (restart_callback cfg cap env now w)) = 0"
    using te by (cases res) (simp_all add: restart_callback_def Let_def r timeouts_simps)
  show "trace (fst (restart_callback cfg cap env now w)) = trace w"
    by (cases res) (simp_all add: restart_callback_def Let_def r monitorProcessLogs_def)
  show "timers (fst (restart_callback cfg cap env now w)) = timers w"
    by (cases res) (simp_all add: restart_callback_def Let_def r monitorProcessLogs_def)
qed

lemma computeHealth_timeouts: "timeouts (snd (snd (computeHealth cfg env st))) = 0"
  by (simp add: computeHealth_def Let_def timeouts_simps split: option.splits)

lemma checkBinaryHealth_props:
  "restartCount (fst (snd (checkBinaryHealth cfg env st))) = restartCount st"
  "timeouts (snd (snd (checkBinaryHealth cfg env st))) = 0"
  by (simp_all add: checkBinaryHealth_def computeHealth_preserves computeHealth_timeouts timeouts_simps)

lemma health_props:
  "restartCount (fst (snd (health cfg env st))) = restartCount st"
  "timeouts (snd (snd (health cfg env st))) = 0"
  using checkBinaryHealth_props[of cfg env st]
  by (cases "checkBinaryHealth cfg env st"; simp add: health_def Let_def timeouts_simps)+

lemma start_initial_health_props:
  "restartCount (fst (start_initial_health cfg env st)) = restartCount st"
  "timeouts (snd (start_initial_health cfg env st)) = 0"
  using checkBinaryHealth_props[of cfg env st]
  by (cases "checkBinaryHealth cfg env st"; simp add: start_initial_health_def timeouts_simps)+

lemma line_props:
  "restartCount (fst (stdout_line line el st)) = restartCount st"
  "timeouts (snd (stdout_line line el st)) = 0"
  "restartCount (fst (stderr_line child line st)) = restartCount st"
  "timeouts (snd (stderr_line child line st)) = 0"
  by (simp_all add: stdout_line_def stderr_line_def timeouts_simps)

lemma timeouts_poll_rounds: "timeouts (poll_rounds q n) = 0"
  by (induction n) (simp_all add: poll_rounds_Suc timeouts_simps, simp add: poll_rounds_def timeouts_def)

lemma stop_wait_timeouts: "timeouts (snd (stop_wait env T p e k)) = 0"
proof -
  from stop_wait_shape[of env T p e k] obtain n where
    "snd (stop_wait env T p e k)
          = poll_rounds (the p) n
            @ (if fst (stop_wait env T p e k) \<and> truthy_pid p then [Probe (the p)] else [])"
    by blast
  then show ?thesis by (simp add: timeouts_simps timeouts_poll_rounds)
qed

lemma stop_props:
  "restartCount (fst (snd (stop cfg wr env st))) = restartCount st"
  "timeouts (snd (snd (stop cfg wr env st))) = 0"
proof -
  have "restartCount (fst (snd (stop cfg wr env st))) = restartCount st
      \<and> timeouts (snd (snd (stop cfg wr env st))) = 0"
  proof (cases "process st")
    case None
    then show ?thesis by (simp add: stop_def timeouts_simps)
  next
    case (Some p)
    obtain f effs where w: "stop_wait env (SHUTDOWN_TIMEOUT cfg) (pid p) 0 0 = (f, effs)"
      by (cases "stop_wait env (SHUTDOWN_TIMEOUT cfg) (pid p) 0 0")
    with stop_wait_timeouts[of env "SHUTDOWN_TIMEOUT cfg" "pid p" 0 0]
    have t: "timeouts effs = 0" by simp
    show ?thesis
      using Some w t by (simp add: stop_def Let_def timeouts_simps split: option.splits)
  qed
  then show "restartCount (fst (snd (stop cfg wr env st))) = restartCount st"
    and "timeouts (snd (snd (stop cfg wr env st))) = 0" by simp_all
qed




lemma run_Nil: "run cfg w [] = w"
  by (simp add: run_def)

lemma run_Cons: "run cfg w (e # evs) = run cfg (step cfg w e) evs"
  by (simp add: run_def)



lemma step_count_le_max:
  assumes "int (restartCount (ps w)) \<le> max 0 (MAX_RESTART_ATTEMPTS cfg)"
  shows "int (restartCount (ps (step cfg w e))) \<le> max 0 (MAX_RESTART_ATTEMPTS cfg)"
proof (cases e)
  case (CallStart a now env)
  then show ?thesis by (simp add: emit_fields start_props)
next
  case (GraceOver env)
  then show ?thesis using assms by (simp add: on_state_fields start_initial_health_props)
next
  case (ChildExit c rnd now)
  show ?thesis
  proof (cases "map_of (exitObservers w) c")
    case None
    then show ?thesis using assms by (simp add: ChildExit)
  next
    case (Some cap)
    let ?w1 = "w\<lparr>exitObservers := filter (\<lambda>ob. fst ob \<noteq> c) (exitObservers w)\<rparr>"
    have s: "step cfg w e = emit (exit_listener cfg cap rnd now ?w1)"
      by (simp add: ChildExit Some)
    show ?thesis
    proof (cases "int (restartCount (ps ?w1)) < MAX_RESTART_ATTEMPTS cfg")
      case True
      from exit_listener_props(5)[OF True, of cap rnd now] True
      show ?thesis unfolding s emit_fields by simp
    next
      case False
      from exit_listener_props(6)[OF False, of cap rnd now] assms
      show ?thesis unfolding s emit_fields by simp
    qed
  qed
next
  case (TimerFires i env now)
  then show ?thesis using assms by (simp add: emit_fields restart_callback_props)
next
  case (StdoutLine child line el)
  then show ?thesis using assms by (simp add: on_state_fields line_props)
next
  case (StderrLine child line)
  then show ?thesis using assms by (simp add: on_state_fields line_props)
next
  case (CallHealth env)
  then show ?thesis using assms by (simp add: on_state_fields health_props)
next
  case (CallStop env)
  then show ?thesis using assms by (simp add: on_state_fields stop_props)
qed

lemma run_count_le_max:
  "int (restartCount (ps w)) \<le> max 0 (MAX_RESTART_ATTEMPTS cfg) \<Longrightarrow>
   int (restartCount (ps (run cfg w evs))) \<le> max 0 (MAX_RESTART_ATTEMPTS cfg)"
proof (induction evs arbitrary: w)
  case Nil
  then show ?case by (simp add: run_Nil)
next
  case (Cons e evs)
  from Cons.IH[OF step_count_le_max[OF Cons.prems, of e]]
  show ?case by (simp add: run_Cons)
qed







lemma step_exit_unobserved:
  "map_of (exitObservers w) c = None \<Longrightarrow> step cfg w (ChildExit c rnd now) = w"
  by simp

lemma step_timer_none: "timers w = [] \<Longrightarrow> step cfg w (TimerFires i env now) = w"
  by simp

text \<open>
  C1, on the code. The claim: after exactly \<open>MAX_RESTART_ATTEMPTS\<close> consecutive unexpected
  exits the counter equals the maximum, and no further spawn is attempted. With the default
  maximum of 3: \<open>start\<close> spawns child 0; child 0 exits, the counter becomes 1 and a restart
  is scheduled; the timer fires and spawns child 1; child 1 exits. Then the counter is still
  1, no timer is pending and no exit listener is left, so neither a further exit nor a timer
  changes anything: the second exit is not handled at all, the counter never reaches 3,
  and only two processes were ever spawned. The counter is reset by \<open>start\<close>, grows by one
  per restart attempt and never exceeds the maximum (\<open>start_props\<close>,
  \<open>exit_listener_props\<close>, \<open>run_count_le_max\<close>).
\<close>

theorem restart_ceiling_not_reached:
  "MAX_RESTART_ATTEMPTS defaultConfig = 3
   \<and> restartCount (ps (run defaultConfig (initWorld defaultConfig None) [CallStart False 0 (spawnOk 4242), ChildExit 0 (1 / 2) 1000, TimerFires 0 (spawnOk 4243) 4000, ChildExit 1 (1 / 2) 5000])) = 1
   \<and> timers (run defaultConfig (initWorld defaultConfig None) [CallStart False 0 (spawnOk 4242), ChildExit 0 (1 / 2) 1000, TimerFires 0 (spawnOk 4243) 4000, ChildExit 1 (1 / 2) 5000]) = []
   \<and> exitObservers (run defaultConfig (initWorld defaultConfig None) [CallStart False 0 (spawnOk 4242), ChildExit 0 (1 / 2) 1000, TimerFires 0 (spawnOk 4243) 4000, ChildExit 1 (1 / 2) 5000]) = []
   \<and> spawns (run defaultConfig (initWorld defaultConfig None) [CallStart False 0 (spawnOk 4242), ChildExit 0 (1 / 2) 1000, TimerFires 0 (spawnOk 4243) 4000, ChildExit 1 (1 / 2) 5000]) = 2
   \<and> process (ps (run defaultConfig (initWorld defaultConfig None) [CallStart False 0 (spawnOk 4242), ChildExit 0 (1 / 2) 1000, TimerFires 0 (spawnOk 4243) 4000, ChildExit 1 (1 / 2) 5000])) = Some \<lparr>cid = 1, pid = Some 4243\<rparr>
   \<and> step defaultConfig (run defaultConfig (initWorld defaultConfig None) [CallStart False 0 (spawnOk 4242), ChildExit 0 (1 / 2) 1000, TimerFires 0 (spawnOk 4243) 4000, ChildExit 1 (1 / 2) 5000]) (ChildExit 1 (1 / 2) 6000) = run defaultConfig (initWorld defaultConfig None) [CallStart False 0 (spawnOk 4242), ChildExit 0 (1 / 2) 1000, TimerFires 0 (spawnOk 4243) 4000, ChildExit 1 (1 / 2) 5000]
   \<and> step defaultConfig (run defaultConfig (initWorld defaultConfig None) [CallStart False 0 (spawnOk 4242), ChildExit 0 (1 / 2) 1000, TimerFires 0 (spawnOk 4243) 4000, ChildExit 1 (1 / 2) 5000]) (TimerFires 0 (spawnOk 4244) 9000) = run defaultConfig (initWorld defaultConfig None) [CallStart False 0 (spawnOk 4242), ChildExit 0 (1 / 2) 1000, TimerFires 0 (spawnOk 4243) 4000, ChildExit 1 (1 / 2) 5000]"
proof -
  let ?W = "run defaultConfig (initWorld defaultConfig None) [CallStart False 0 (spawnOk 4242), ChildExit 0 (1 / 2) 1000, TimerFires 0 (spawnOk 4243) 4000, ChildExit 1 (1 / 2) 5000]"
  have m: "MAX_RESTART_ATTEMPTS defaultConfig = 3" by (simp add: defaultConfig_def)
  have c: "restartCount (ps ?W) = 1" by code_simp
  have t: "timers ?W = []" by code_simp
  have ob: "exitObservers ?W = []" by code_simp
  have sp: "spawns ?W = 2" by code_simp
  have pr: "process (ps ?W) = Some \<lparr>cid = 1, pid = Some 4243\<rparr>" by code_simp
  have e: "step defaultConfig ?W (ChildExit 1 (1 / 2) 6000) = ?W"
    by (rule step_exit_unobserved) (simp only: ob map_of.simps)
  have f: "step defaultConfig ?W (TimerFires 0 (spawnOk 4244) 9000) = ?W"
    by (rule step_timer_none) (rule t)
  from m c t ob sp pr e f show ?thesis by (intro conjI)
qed

section \<open>The health verdict on a sample state\<close>

text \<open>A child that has logged an uptime of 5 seconds and nothing else is healthy while the
  probe finds it alive, and unhealthy once the probe fails.\<close>

theorem health_returns_verdict_witness:
  "fst (health defaultConfig (healthEnvAt 6000 True) (sampleState [''uptime: 5 seconds'']))
   \<and> \<not> fst (health defaultConfig (healthEnvAt 6000 False) (sampleState [''uptime: 5 seconds'']))"
proof -
  let ?st = "sampleState [''uptime: 5 seconds'']"
  have n: "healthCache ?st = None" by (simp add: sampleState_def processState_def)
  have r: "process ?st = Some sampleChild" "truthy_pid (pid sampleChild)"
      "alive (healthEnvAt t a) (the (pid sampleChild)) = a" for t a
    by (simp_all add: sampleState_def sampleChild_def truthy_pid_def healthEnvAt_def)
  have m: "checkBinaryHealth defaultConfig (healthEnvAt t a) ?st
      = computeHealth defaultConfig (healthEnvAt t a) ?st" for t a
    by (rule checkBinaryHealth_miss) (simp add: n)
  have u: "extractUptimeFromLogs (logs ?st) = 5"
    unfolding sampleState_def processState_def defaultConfig_def by code_simp
  have e: "\<not> list_ex has_error_keyword (getRecent 50 (logs ?st))"
    unfolding sampleState_def processState_def defaultConfig_def by code_simp
  have up: "verdict (fst (computeHealth defaultConfig (healthEnvAt 6000 True) ?st))"
    using computeHealth_running(1,2,3)[where st = ?st and p = sampleChild
        and env = "healthEnvAt 6000 True" and cfg = defaultConfig] r u e
    by (simp add: verdict_def)
  have down: "\<not> verdict (fst (computeHealth defaultConfig (healthEnvAt 6000 False) ?st))"
    using computeHealth_not_running[where st = ?st and p = sampleChild
        and env = "healthEnvAt 6000 False" and cfg = defaultConfig] r
    by (simp add: verdict_def noMetrics_def)
  from health_returns_verdict[of defaultConfig "healthEnvAt 6000 True" ?st] up
  have "fst (health defaultConfig (healthEnvAt 6000 True) ?st)" by (simp add: m)
  moreover from health_returns_verdict[of defaultConfig "healthEnvAt 6000 False" ?st] down
  have "\<not> fst (health defaultConfig (healthEnvAt 6000 False) ?st)" by (simp add: m)
  ultimately show ?thesis by simp
qed

end
